theory Spec2Isabelle
  imports Main
begin

section \<open>JavaScript values and strings\<close>

text \<open>
  A JavaScript string is modelled as a \<open>string\<close> whose characters are its code units in the
  range U+0000 to U+00FF. The characters the program names explicitly are given names here.
\<close>

definition bs :: char where "bs = CHR 0x5C"
definition dq :: char where "dq = CHR 0x22"
definition nl :: char where "nl = CHR 0x0A"
definition tab :: char where "tab = CHR 0x09"

text \<open>
  The values \<open>JSON.parse\<close> and \<open>response.json()\<close> deliver, together with \<open>undefined\<close>
  (the value of a missing property). A number is held as the decimal rendering that
  \<open>Number.prototype.toString\<close> gives it: the program never computes with numbers, it only
  compares and prints them.
\<close>

datatype jsval =
    JUndefined
  | JNull
  | JBool bool
  | JNum string
  | JStr string
  | JArr "jsval list"
  | JObj "(string \<times> jsval) list"

text \<open>An exception, with its \<open>message\<close> property.\<close>

datatype exn = Exn (message: string)

text \<open>\<open>!v\<close> is true for the falsy values.\<close>

fun falsy :: "jsval \<Rightarrow> bool" where
  "falsy JUndefined = True"
| "falsy JNull = True"
| "falsy (JBool b) = (\<not> b)"
| "falsy (JNum r) = (r = ''0'')"
| "falsy (JStr s) = (s = [])"
| "falsy (JArr xs) = False"
| "falsy (JObj kvs) = False"

section \<open>The text normalizer: \<open>cleanMarkdownText\<close>\<close>

text \<open>
  \<open>String.prototype.trim\<close> removes white space and line terminators from both ends. The
  code units below U+0100 that count are TAB, LF, VT, FF, CR, SP and NBSP.
\<close>

definition is_space :: "char \<Rightarrow> bool" where
  "is_space c \<longleftrightarrow>
     c = CHR 0x09 \<or> c = CHR 0x0A \<or> c = CHR 0x0B \<or> c = CHR 0x0C \<or> c = CHR 0x0D \<or>
     c = CHR 0x20 \<or> c = CHR 0xA0"

definition trim :: "string \<Rightarrow> string" where
  "trim s = rev (dropWhile is_space (rev (dropWhile is_space s)))"

text \<open>
  \<open>s.replace(/\\c/g, r)\<close> for a pattern of two literal characters \<open>a\<close>, \<open>b\<close>: the string
  is scanned from the left, every match is replaced by \<open>r\<close>, and the scan goes on behind the
  match (matches do not overlap, and replaced text is not scanned again).
\<close>

fun replace :: "char \<Rightarrow> char \<Rightarrow> string \<Rightarrow> string \<Rightarrow> string" where
  "replace a b r (x # y # zs) =
     (if x = a \<and> y = b then r @ replace a b r zs else x # replace a b r (y # zs))"
| "replace a b r zs = zs"

definition startsWith :: "string \<Rightarrow> string \<Rightarrow> bool" where
  "startsWith p s \<longleftrightarrow> take (length p) s = p"

definition endsWith :: "string \<Rightarrow> string \<Rightarrow> bool" where
  "endsWith p s \<longleftrightarrow> length p \<le> length s \<and> drop (length s - length p) s = p"

text \<open>
  \<open>cleanMarkdownText(text)\<close>. A falsy argument gives the empty string. Any other value that
  is not a string has no \<open>trim\<close> method, and the call throws a TypeError: the result
  \<open>None\<close>. \<open>cleaned.slice(1, -1)\<close> drops the first and the last character.
\<close>

definition cleanMarkdownText :: "jsval \<Rightarrow> string option" where
  "cleanMarkdownText text =
     (if falsy text then Some []
      else case text of
        JStr s \<Rightarrow>
          (let cleaned = trim s;
               cleaned = (if startsWith [dq] cleaned \<and> endsWith [dq] cleaned
                          then butlast (tl cleaned) else cleaned);
               cleaned = replace bs (CHR ''n'') [nl] cleaned;
               cleaned = replace bs (CHR ''t'') [tab] cleaned;
               cleaned = replace bs dq [dq] cleaned;
               cleaned = replace bs (CHR ''*'') ''*'' cleaned;
               cleaned = replace bs (CHR ''#'') ''#'' cleaned;
               cleaned = replace bs (CHR ''['') ''['' cleaned;
               cleaned = replace bs (CHR '']'') '']'' cleaned;
               cleaned = replace bs (CHR ''('') ''('' cleaned;
               cleaned = replace bs (CHR '')'') '')'' cleaned;
               cleaned = replace bs bs [bs] cleaned
           in Some cleaned)
      | _ \<Rightarrow> None)"

text \<open>
  The normalizer as the specification words it: trim, strip one pair of wrapping quotes,
  un-escape the nine specific characters, and collapse doubled backslashes last, in one pass.
\<close>

definition spec_strip_quotes :: "string \<Rightarrow> string" where
  "spec_strip_quotes s = (if startsWith [dq] s \<and> endsWith [dq] s then butlast (tl s) else s)"

definition spec_specific_unescapes :: "(char \<times> string) list" where
  "spec_specific_unescapes =
     [(CHR ''n'', [nl]), (CHR ''t'', [tab]), (dq, [dq]), (CHR ''*'', ''*''), (CHR ''#'', ''#''),
      (CHR ''['', ''[''), (CHR '']'', '']''), (CHR ''('', ''(''), (CHR '')'', '')'')]"

definition spec_unescape_specific :: "string \<Rightarrow> string" where
  "spec_unescape_specific s = foldl (\<lambda>s (c, r). replace bs c r s) s spec_specific_unescapes"

definition spec_collapse_backslashes :: "string \<Rightarrow> string" where
  "spec_collapse_backslashes s = replace bs bs [bs] s"

definition spec_normalize :: "string \<Rightarrow> string" where
  "spec_normalize s =
     spec_collapse_backslashes (spec_unescape_specific (spec_strip_quotes (trim s)))"

text \<open>
  A string is clean when the normalizer has nothing to do on it: no white space at its
  ends, no pair of wrapping quotes, and no backslash followed by a character that the
  normalizer un-escapes.
\<close>

fun occurs :: "char \<Rightarrow> char \<Rightarrow> string \<Rightarrow> bool" where
  "occurs a b (x # y # zs) = (x = a \<and> y = b \<or> occurs a b (y # zs))"
| "occurs a b zs = False"

definition escapable :: "char list" where
  "escapable = [CHR ''n'', CHR ''t'', dq, CHR ''*'', CHR ''#'', CHR ''['', CHR '']'',
                CHR ''('', CHR '')'', bs]"

definition clean :: "string \<Rightarrow> bool" where
  "clean s \<longleftrightarrow>
     trim s = s \<and> \<not> (startsWith [dq] s \<and> endsWith [dq] s) \<and>
     list_all (\<lambda>c. \<not> occurs bs c s) escapable"

section \<open>Reading properties and converting to strings\<close>

text \<open>
  \<open>v.k\<close> for the property names the program reads (\<open>type\<close>, \<open>content\<close>, \<open>sources\<close>,
  \<open>error\<close>, \<open>answer\<close>), none of which is a built-in property of a string, a number, a
  boolean, an array or \<open>Object.prototype\<close>. On \<open>null\<close> and \<open>undefined\<close> the read throws a
  TypeError; the callers test \<open>nullish\<close> first.
\<close>

definition nullish :: "jsval \<Rightarrow> bool" where
  "nullish v \<longleftrightarrow> v = JUndefined \<or> v = JNull"

fun js_get :: "jsval \<Rightarrow> string \<Rightarrow> jsval" where
  "js_get (JObj kvs) k = (case map_of kvs k of Some v \<Rightarrow> v | None \<Rightarrow> JUndefined)"
| "js_get v k = JUndefined"

fun join :: "string \<Rightarrow> string list \<Rightarrow> string" where
  "join sep [] = []"
| "join sep [x] = x"
| "join sep (x # y # ys) = x @ sep @ join sep (y # ys)"

fun sequence :: "'a option list \<Rightarrow> 'a list option" where
  "sequence [] = Some []"
| "sequence (None # xs) = None"
| "sequence (Some x # xs) = (case sequence xs of None \<Rightarrow> None | Some ys \<Rightarrow> Some (x # ys))"

text \<open>
  The string that \<open>s + v\<close> appends to a string \<open>s\<close> for \<open>v\<close>. An array is joined with commas,
  \<open>null\<close> and \<open>undefined\<close> elements printing as nothing. An object prints as
  \<open>[object Object]\<close>, unless it has a property \<open>toString\<close> of its own: a parsed value is never
  callable, the conversion finds no primitive and throws a TypeError (\<open>None\<close>).
\<close>

fun ToString :: "jsval \<Rightarrow> string option" where
  "ToString JUndefined = Some ''undefined''"
| "ToString JNull = Some ''null''"
| "ToString (JBool b) = Some (if b then ''true'' else ''false'')"
| "ToString (JNum r) = Some r"
| "ToString (JStr s) = Some s"
| "ToString (JArr xs) =
     map_option (join '','')
       (sequence (map (\<lambda>x. if nullish x then Some [] else ToString x) xs))"
| "ToString (JObj kvs) =
     (if ''toString'' \<in> fst ` set kvs then None else Some ''[object Object]'')"

fun digit :: "nat \<Rightarrow> char" where
  "digit n = char_of (48 + n)"

fun show_nat :: "nat \<Rightarrow> string" where
  "show_nat n = (if n < 10 then [digit n] else show_nat (n div 10) @ [digit (n mod 10)])"

declare show_nat.simps [simp del]

section \<open>The transport\<close>

text \<open>
  What the host gives back to the program. \<open>fetch\<close> rejects (\<open>Inl\<close>) or resolves with a
  response. The body of a response is seen through \<open>response.json()\<close> on the plain path and
  through \<open>response.body.getReader()\<close> on the streaming path; either may throw. A reader is
  the list of the results of its \<open>read()\<close> calls up to the one that reports \<open>done\<close>: a chunk,
  given as the text \<open>TextDecoder.decode\<close> makes of it, or a rejection. The sequence of
  chunks is finite, as the specification has it: it ends when the transport closes.
\<close>

datatype read = Chunk string | ReadThrows exn

record 'b response =
  ok :: bool
  status :: nat
  body :: "exn + 'b"

type_synonym 'b fetched = "exn + 'b response"

datatype request = Request (url: string) (query: string) (max_sources: nat) (stream: bool)

definition API_BASE_URL :: string where
  "API_BASE_URL = ''http://localhost:8000''"

definition http_error :: "nat \<Rightarrow> exn" where
  "http_error st = Exn (''HTTP error! status: '' @ show_nat st)"

text \<open>
  \<open>chatAPI.sendMessage\<close>: one POST to \<open>/api/query\<close>. Every failure is logged and thrown
  again, so the result is the exception or the parsed body.
\<close>

definition sendMessage :: "jsval fetched \<Rightarrow> string \<Rightarrow> nat \<Rightarrow> (exn + jsval) \<times> request list" where
  "sendMessage fetched q maxSources =
     ((case fetched of
         Inl e \<Rightarrow> Inl e
       | Inr response \<Rightarrow>
           if \<not> ok response then Inl (http_error (status response))
           else body response),
      [Request (API_BASE_URL @ ''/api/query'') q maxSources False])"

section \<open>The frame decoder and dispatcher: \<open>chatAPI.streamMessage\<close>\<close>

text \<open>\<open>s.split(sep)\<close> for a separator of one character.\<close>

fun split :: "char \<Rightarrow> string \<Rightarrow> string list" where
  "split sep [] = [[]]"
| "split sep (c # cs) =
     (if c = sep then [] # split sep cs
      else case split sep cs of l # ls \<Rightarrow> (c # l) # ls | [] \<Rightarrow> [[c]])"

text \<open>
  The four callbacks work on a state \<open>'s\<close> of the caller's; a call gives the new state and
  the exception it threw, if any. A callback that was not passed is \<open>None\<close>, and
  \<open>cb && cb(v)\<close> does nothing then.
\<close>

type_synonym 's effect = "'s \<Rightarrow> 's \<times> exn option"

record 's callbacks =
  onToken :: "(jsval \<Rightarrow> 's effect) option"
  onSources :: "(jsval \<Rightarrow> 's effect) option"
  onError :: "(jsval \<Rightarrow> 's effect) option"
  onDone :: "'s effect option"

definition call :: "('a \<Rightarrow> 's effect) option \<Rightarrow> 'a \<Rightarrow> 's effect" where
  "call cb v s = (case cb of None \<Rightarrow> (s, None) | Some f \<Rightarrow> f v s)"

definition call0 :: "'s effect option \<Rightarrow> 's effect" where
  "call0 cb s = (case cb of None \<Rightarrow> (s, None) | Some f \<Rightarrow> f s)"

text \<open>The \<open>switch (data.type)\<close>, with the read of \<open>data.type\<close> that precedes it.\<close>

definition dispatch :: "'s callbacks \<Rightarrow> jsval \<Rightarrow> 's effect" where
  "dispatch cbs data s =
     (if nullish data then (s, Some (Exn ''Cannot read properties of null''))
      else let ty = js_get data ''type'' in
        if ty = JStr ''token'' then call (onToken cbs) (js_get data ''content'') s
        else if ty = JStr ''sources'' then call (onSources cbs) (js_get data ''sources'') s
        else if ty = JStr ''error'' then call (onError cbs) (js_get data ''error'') s
        else if ty = JStr ''done'' then call0 (onDone cbs) s
        else (s, None))"

text \<open>
  The body of \<open>for (const line of lines)\<close>. \<open>parse\<close> is \<open>JSON.parse\<close>, \<open>None\<close> where it throws
  a SyntaxError. The \<open>catch\<close> around the frame logs whatever was thrown, by \<open>JSON.parse\<close>, by
  the read of \<open>data.type\<close> or by a callback, and goes on with the state as it is.
\<close>

definition process_line :: "(string \<Rightarrow> jsval option) \<Rightarrow> 's callbacks \<Rightarrow> string \<Rightarrow> 's \<Rightarrow> 's" where
  "process_line parse cbs line s =
     (if startsWith ''data: '' line
      then (case parse (drop 6 line) of
              None \<Rightarrow> s
            | Some data \<Rightarrow> fst (dispatch cbs data s))
      else s)"

definition process_chunk :: "(string \<Rightarrow> jsval option) \<Rightarrow> 's callbacks \<Rightarrow> string \<Rightarrow> 's \<Rightarrow> 's" where
  "process_chunk parse cbs chunk s =
     foldl (\<lambda>s line. process_line parse cbs line s) s (split nl chunk)"

text \<open>The \<open>while (true)\<close> loop over the reader: it ends at \<open>done\<close> or when a read throws.\<close>

fun read_loop :: "(string \<Rightarrow> jsval option) \<Rightarrow> 's callbacks \<Rightarrow> read list \<Rightarrow> 's effect" where
  "read_loop parse cbs [] s = (s, None)"
| "read_loop parse cbs (ReadThrows e # rs) s = (s, Some e)"
| "read_loop parse cbs (Chunk c # rs) s = read_loop parse cbs rs (process_chunk parse cbs c s)"

text \<open>The \<open>try\<close> block of \<open>streamMessage\<close>, after the \<open>fetch\<close>.\<close>

definition stream_try :: "(string \<Rightarrow> jsval option) \<Rightarrow> 's callbacks \<Rightarrow> read list fetched \<Rightarrow> 's effect" where
  "stream_try parse cbs fetched s =
     (case fetched of
        Inl e \<Rightarrow> (s, Some e)
      | Inr response \<Rightarrow>
          if \<not> ok response then (s, Some (http_error (status response)))
          else (case body response of
                  Inl e \<Rightarrow> (s, Some e)
                | Inr reads \<Rightarrow> read_loop parse cbs reads s))"

text \<open>
  \<open>streamMessage\<close>: the \<open>try\<close> block and its \<open>catch\<close>, which passes the message of what was
  thrown to \<open>onError\<close>. The result is the caller's state, the exception the returned promise
  rejects with (if any), and the request that was sent.
\<close>

definition streamMessage ::
  "(string \<Rightarrow> jsval option) \<Rightarrow> read list fetched \<Rightarrow> string \<Rightarrow> nat \<Rightarrow> 's callbacks \<Rightarrow> 's
     \<Rightarrow> ('s \<times> exn option) \<times> request list" where
  "streamMessage parse fetched q maxSources cbs s =
     ((case stream_try parse cbs fetched s of
         (s', None) \<Rightarrow> (s', None)
       | (s', Some e) \<Rightarrow> call (onError cbs) (JStr (message e)) s'),
      [Request (API_BASE_URL @ ''/api/stream'') q maxSources True])"

section \<open>The ledger and the session controller: \<open>ChatInterface\<close>\<close>

text \<open>
  A message of the \<open>messages\<close> array. The object literals of the program do not all have
  the same properties: a property that a message lacks reads as \<open>undefined\<close>, which is
  \<open>JUndefined\<close> for \<open>sources\<close> and \<open>None\<close> for \<open>isStreaming\<close>.
\<close>

datatype sender = User | Bot

record chat_message =
  msg_id :: nat
  msg_text :: jsval
  sender :: sender
  sources :: jsval
  isStreaming :: "bool option"

text \<open>
  \<open>prev.map((msg) => msg.id === botMessageId ? f(msg) : msg)\<close>, the one way in which the
  callbacks change the ledger. State updates are applied in the order they are queued.
\<close>

definition patch :: "nat \<Rightarrow> (chat_message \<Rightarrow> chat_message) \<Rightarrow> chat_message list \<Rightarrow> chat_message list" where
  "patch botMessageId f prev = map (\<lambda>msg. if msg_id msg = botMessageId then f msg else msg) prev"

text \<open>
  The callbacks that \<open>handleStreamingResponse\<close> passes work on its local variable
  \<open>streamedText\<close> and on the ledger.
\<close>

type_synonym stream_state = "string \<times> chat_message list"

definition token_handler :: "nat \<Rightarrow> jsval \<Rightarrow> stream_state effect" where
  "token_handler botMessageId token =
     (\<lambda>(streamedText, prev).
        case ToString token of
          None \<Rightarrow> ((streamedText, prev), Some (Exn ''Cannot convert object to primitive value''))
        | Some t \<Rightarrow>
            (let streamedText = streamedText @ t
             in ((streamedText,
                  patch botMessageId (\<lambda>msg. msg\<lparr>msg_text := JStr streamedText\<rparr>) prev), None)))"

definition sources_handler :: "nat \<Rightarrow> jsval \<Rightarrow> stream_state effect" where
  "sources_handler botMessageId srcs =
     (\<lambda>(streamedText, prev).
        ((streamedText, patch botMessageId (\<lambda>msg. msg\<lparr>sources := srcs\<rparr>) prev), None))"

definition error_handler :: "nat \<Rightarrow> jsval \<Rightarrow> stream_state effect" where
  "error_handler botMessageId error =
     (\<lambda>(streamedText, prev).
        ((streamedText,
          patch botMessageId
            (\<lambda>msg. msg\<lparr>msg_text := JStr ''Sorry, an error occurred.'', isStreaming := Some False\<rparr>)
            prev), None))"

definition done_handler :: "nat \<Rightarrow> stream_state effect" where
  "done_handler botMessageId =
     (\<lambda>(streamedText, prev).
        ((streamedText, patch botMessageId (\<lambda>msg. msg\<lparr>isStreaming := Some False\<rparr>) prev), None))"

definition handlers :: "nat \<Rightarrow> stream_state callbacks" where
  "handlers botMessageId =
     \<lparr>onToken = Some (token_handler botMessageId),
      onSources = Some (sources_handler botMessageId),
      onError = Some (error_handler botMessageId),
      onDone = Some (done_handler botMessageId)\<rparr>"

text \<open>
  \<open>handleStreamingResponse\<close>, \<open>handleRegularResponse\<close> and \<open>addErrorMessage\<close>. Each takes the
  value of the \<open>Date.now()\<close> it calls and the ledger, and gives the new ledger; the first two
  also give the exception they throw (if any) and the requests sent.
\<close>

definition handleStreamingResponse ::
  "(string \<Rightarrow> jsval option) \<Rightarrow> nat \<Rightarrow> read list fetched \<Rightarrow> string \<Rightarrow> chat_message list
     \<Rightarrow> (chat_message list \<times> exn option) \<times> request list" where
  "handleStreamingResponse parse now fetched q prev =
     (let botMessageId = now + 1;
          botMessage = \<lparr>msg_id = botMessageId, msg_text = JStr [], sender = Bot,
                        sources = JArr [], isStreaming = Some True\<rparr>;
          (((streamedText, msgs), thrown), reqs) =
             streamMessage parse fetched q 3 (handlers botMessageId) ([], prev @ [botMessage])
      in ((msgs, thrown), reqs))"

definition handleRegularResponse ::
  "nat \<Rightarrow> jsval fetched \<Rightarrow> string \<Rightarrow> chat_message list
     \<Rightarrow> (chat_message list \<times> exn option) \<times> request list" where
  "handleRegularResponse now fetched q prev =
     (case sendMessage fetched q 3 of
        (Inl e, reqs) \<Rightarrow> ((prev, Some e), reqs)
      | (Inr response, reqs) \<Rightarrow>
          if nullish response then ((prev, Some (Exn ''Cannot read properties of null'')), reqs)
          else
            (let botMessage = \<lparr>msg_id = now + 1, msg_text = js_get response ''answer'',
                               sender = Bot, sources = js_get response ''sources'',
                               isStreaming = None\<rparr>
             in ((prev @ [botMessage], None), reqs)))"

definition addErrorMessage :: "nat \<Rightarrow> string \<Rightarrow> chat_message list \<Rightarrow> chat_message list" where
  "addErrorMessage now errorText prev =
     prev @ [\<lparr>msg_id = now + 1, msg_text = JStr errorText, sender = Bot,
              sources = JUndefined, isStreaming = None\<rparr>]"

text \<open>The state of the component, and what the host supplies during one \<open>handleSubmit\<close>.\<close>

record state =
  message :: string
  messages :: "chat_message list"
  isLoading :: bool
  useStreaming :: bool

record env =
  now_user :: nat
  now_bot :: nat
  now_error :: nat
  fetched_stream :: "read list fetched"
  fetched_query :: "jsval fetched"

definition failure_text :: string where
  "failure_text = ''Sorry, I couldn'' @ [CHR 0x27] @ ''t process your request. Please try again.''"

text \<open>
  \<open>handleSubmit\<close>, from the test of the guard to the \<open>finally\<close>: the state it leaves and the
  requests it has sent.
\<close>

definition handleSubmit :: "(string \<Rightarrow> jsval option) \<Rightarrow> env \<Rightarrow> state \<Rightarrow> state \<times> request list" where
  "handleSubmit parse env st =
     (if trim (message st) \<noteq> [] \<and> \<not> isLoading st then
        (let userMessage = \<lparr>msg_id = now_user env, msg_text = JStr (message st), sender = User,
                             sources = JUndefined, isStreaming = None\<rparr>;
             prev = messages st @ [userMessage];
             currentMessage = message st;
             ((msgs, thrown), reqs) =
                (if useStreaming st
                 then handleStreamingResponse parse (now_bot env) (fetched_stream env) currentMessage prev
                 else handleRegularResponse (now_bot env) (fetched_query env) currentMessage prev);
             msgs = (case thrown of
                       None \<Rightarrow> msgs
                     | Some error \<Rightarrow> addErrorMessage (now_error env) failure_text msgs)
         in (st\<lparr>message := [], messages := msgs, isLoading := False\<rparr>, reqs))
      else (st, []))"


section \<open>Observing the decoder\<close>

text \<open>
  The calls the decoder makes, in order: \<open>streamMessage\<close> run with callbacks that write
  each call down.
\<close>

datatype event = Token jsval | Sources jsval | Error jsval | Done

definition recorder :: "event list callbacks" where
  "recorder =
     \<lparr>onToken = Some (\<lambda>v log. (log @ [Token v], None)),
      onSources = Some (\<lambda>v log. (log @ [Sources v], None)),
      onError = Some (\<lambda>v log. (log @ [Error v], None)),
      onDone = Some (\<lambda>log. (log @ [Done], None))\<rparr>"

definition events :: "(string \<Rightarrow> jsval option) \<Rightarrow> read list fetched \<Rightarrow> event list" where
  "events parse fetched = fst (fst (streamMessage parse fetched [] 3 recorder []))"

text \<open>The calls that one line gives.\<close>

definition line_events :: "(string \<Rightarrow> jsval option) \<Rightarrow> string \<Rightarrow> event list" where
  "line_events parse line = process_line parse recorder line []"

text \<open>What a recorded call does to the state of given callbacks.\<close>

definition deliver :: "'s callbacks \<Rightarrow> event \<Rightarrow> 's \<Rightarrow> 's" where
  "deliver cbs e s =
     fst (case e of
            Token v \<Rightarrow> call (onToken cbs) v s
          | Sources v \<Rightarrow> call (onSources cbs) v s
          | Error v \<Rightarrow> call (onError cbs) v s
          | Done \<Rightarrow> call0 (onDone cbs) s)"

text \<open>
  The calls that close the bot message, \<open>onError\<close> and \<open>onDone\<close>; a stream closes its
  message when it makes one of them.
\<close>

fun closing :: "event \<Rightarrow> bool" where
  "closing (Error v) = True"
| "closing Done = True"
| "closing e = False"

definition closes :: "(string \<Rightarrow> jsval option) \<Rightarrow> read list fetched \<Rightarrow> bool" where
  "closes parse fetched = list_ex closing (events parse fetched)"

text \<open>A response with a successful status whose body delivers the given chunks.\<close>

definition delivering :: "string list \<Rightarrow> read list fetched" where
  "delivering chunks = Inr \<lparr>ok = True, status = 200, body = Inr (map Chunk chunks)\<rparr>"

text \<open>The messages that are streaming.\<close>

definition streaming :: "chat_message \<Rightarrow> bool" where
  "streaming msg \<longleftrightarrow> isStreaming msg = Some True"

text \<open>
  A session: the user types a query into the input (\<open>setMessage\<close>) and submits it, one
  query after the other, each \<open>handleSubmit\<close> with what the host supplies during it.
\<close>

fun submits :: "(string \<Rightarrow> jsval option) \<Rightarrow> (string \<times> env) list \<Rightarrow> state \<Rightarrow> state" where
  "submits parse [] st = st"
| "submits parse ((typed, env) # rest) st =
     submits parse rest (fst (handleSubmit parse env (st\<lparr>message := typed\<rparr>)))"

text \<open>
  The state the component starts in (the arguments of its \<open>useState\<close> calls), and two
  hosts for the examples: one whose stream delivers given chunks, one whose plain request is
  answered with a given body. The clock stands still during a submission.
\<close>

definition initial_state :: state where
  "initial_state = \<lparr>message = [], messages = [], isLoading = False, useStreaming = True\<rparr>"

definition streaming_env :: "nat \<Rightarrow> string list \<Rightarrow> env" where
  "streaming_env now chunks =
     \<lparr>now_user = now, now_bot = now, now_error = now,
      fetched_stream = delivering chunks, fetched_query = Inl (Exn ''Failed to fetch'')\<rparr>"

definition answering_env :: "nat \<Rightarrow> jsval \<Rightarrow> env" where
  "answering_env now data =
     \<lparr>now_user = now, now_bot = now, now_error = now,
      fetched_stream = Inl (Exn ''Failed to fetch''),
      fetched_query = Inr \<lparr>ok = True, status = 200, body = Inr data\<rparr>\<rparr>"

text \<open>
  The values of \<open>JSON.parse\<close> at the texts that the examples below pass to it; every other
  text they pass is ill-formed, where \<open>JSON.parse\<close> throws.
\<close>

definition frame_done :: string where
  "frame_done = ''{\"type\":\"done\"}''"

definition frame_token :: string where
  "frame_token = ''{\"type\":\"token\",\"content\":\"partial\"}''"

definition frame_error :: string where
  "frame_error = ''{\"type\":\"error\",\"error\":\"boom\"}''"

definition parse_sample :: "string \<Rightarrow> jsval option" where
  "parse_sample s =
     map_of
       [(frame_done, JObj [(''type'', JStr ''done'')]),
        (frame_token, JObj [(''type'', JStr ''token''), (''content'', JStr ''partial'')]),
        (frame_error, JObj [(''type'', JStr ''error''), (''error'', JStr ''boom'')])] s"

section \<open>Properties of the normalizer\<close>

lemmas char_defs = bs_def dq_def nl_def tab_def
lemmas norm_defs = cleanMarkdownText_def trim_def is_space_def startsWith_def endsWith_def

lemma replace_absent: "\<not> occurs a b s \<Longrightarrow> replace a b r s = s"
  by (induction a b r s rule: replace.induct) auto

text \<open>
  C6. The quoted input \<open>"Hello \n world\*"\<close>, with a backslash before the \<open>n\<close> and before the
  asterisk, is normalized to \<open>Hello\<close>, a real line feed, \<open>world*\<close>, without the quotes. For
  every string the program computes what the specification words: the specific un-escapes
  first, the collapse of doubled backslashes last. That the collapse comes last shows on
  backslash, backslash, \<open>n\<close>, which gives a backslash and a line feed; that it runs once
  shows on four backslashes, which give two.
\<close>

theorem normalizer_example_and_order:
  "cleanMarkdownText (JStr (''\"Hello '' @ [bs, CHR ''n''] @ '' world'' @ [bs, CHR ''*''] @ ''\"''))
     = Some (''Hello '' @ [nl] @ '' world*'')
   \<and> cleanMarkdownText (JStr s) = Some (spec_normalize s)
   \<and> cleanMarkdownText (JStr [bs, bs, CHR ''n'']) = Some [bs, nl]
   \<and> cleanMarkdownText (JStr [bs, bs, bs, bs]) = Some [bs, bs]"
proof -
  have ex: "cleanMarkdownText (JStr (''\"Hello '' @ [bs, CHR ''n''] @ '' world'' @ [bs, CHR ''*''] @ ''\"''))
     = Some (''Hello '' @ [nl] @ '' world*'')"
    by (simp add: norm_defs char_defs)
  have gen: "cleanMarkdownText (JStr s) = Some (spec_normalize s)"
  proof (cases "s = []")
    case True
    then show ?thesis
      by (simp add: norm_defs spec_normalize_def spec_collapse_backslashes_def
          spec_unescape_specific_def spec_specific_unescapes_def spec_strip_quotes_def)
  next
    case False
    then show ?thesis
      by (simp add: cleanMarkdownText_def spec_normalize_def spec_collapse_backslashes_def
          spec_unescape_specific_def spec_specific_unescapes_def spec_strip_quotes_def Let_def)
  qed
  have o1: "cleanMarkdownText (JStr [bs, bs, CHR ''n'']) = Some [bs, nl]"
    by (simp add: norm_defs char_defs)
  have o2: "cleanMarkdownText (JStr [bs, bs, bs, bs]) = Some [bs, bs]"
    by (simp add: norm_defs char_defs)
  from ex gen o1 o2 show ?thesis by blast
qed

text \<open>
  C3, as stated, fails: four backslashes are normalized to two, and two to one, so the
  second application changes the result of the first.
\<close>

theorem normalizer_not_idempotent:
  "cleanMarkdownText (JStr [bs, bs, bs, bs]) = Some [bs, bs]
   \<and> cleanMarkdownText (JStr [bs, bs]) = Some [bs]
   \<and> [bs] \<noteq> [bs, bs]"
  by (simp add: norm_defs char_defs)

text \<open>
  C3, amended. A second application changes nothing whenever the first has given a clean
  string: one with no white space at its ends, no pair of wrapping quotes and no escape
  sequence left.
\<close>

theorem normalizer_idempotent_on_clean:
  assumes "cleanMarkdownText (JStr s) = Some t" and "clean t"
  shows "cleanMarkdownText (JStr t) = Some t"
proof -
  from assms(2) have tr: "trim t = t"
    and nq: "\<not> (startsWith [dq] t \<and> endsWith [dq] t)"
    and esc: "list_all (\<lambda>c. \<not> occurs bs c t) escapable"
    by (simp_all add: clean_def)
  from esc have r: "\<And>c r. c \<in> set escapable \<Longrightarrow> replace bs c r t = t"
    by (simp add: list_all_iff replace_absent)
  have m: "CHR ''n'' \<in> set escapable" "CHR ''t'' \<in> set escapable" "dq \<in> set escapable"
    "CHR ''*'' \<in> set escapable" "CHR ''#'' \<in> set escapable" "CHR ''['' \<in> set escapable"
    "CHR '']'' \<in> set escapable" "CHR ''('' \<in> set escapable" "CHR '')'' \<in> set escapable"
    "bs \<in> set escapable"
    by (simp_all add: escapable_def)
  from nq have q: "(if startsWith [dq] t \<and> endsWith [dq] t then butlast (tl t) else t) = t"
    by auto
  show ?thesis
    by (simp add: cleanMarkdownText_def Let_def tr q r m)
qed

text \<open>The amended C3 at the input of C6, whose normal form is clean.\<close>

theorem normalizer_idempotent_on_clean_witness:
  "cleanMarkdownText (JStr (''\"Hello '' @ [bs, CHR ''n''] @ '' world'' @ [bs, CHR ''*''] @ ''\"''))
     = Some (''Hello '' @ [nl] @ '' world*'')
   \<and> clean (''Hello '' @ [nl] @ '' world*'')
   \<and> cleanMarkdownText (JStr (''Hello '' @ [nl] @ '' world*'')) = Some (''Hello '' @ [nl] @ '' world*'')"
proof -
  have a: "cleanMarkdownText (JStr (''\"Hello '' @ [bs, CHR ''n''] @ '' world'' @ [bs, CHR ''*''] @ ''\"''))
     = Some (''Hello '' @ [nl] @ '' world*'')"
    by (simp add: norm_defs char_defs)
  have b: "clean (''Hello '' @ [nl] @ '' world*'')"
    by (simp add: clean_def escapable_def norm_defs char_defs)
  from normalizer_idempotent_on_clean [OF a b] a b show ?thesis by simp
qed

section \<open>Properties of the frame decoder\<close>

lemma split_not_Nil: "split sep s \<noteq> []"
  by (induction s) (auto split: list.splits)

lemma split_append_sep: "split sep (a @ sep # b) = split sep a @ split sep b"
proof (induction a)
  case Nil
  show ?case by simp
next
  case (Cons c a)
  obtain l ls where "split sep a = l # ls"
    using split_not_Nil [of sep a] by (cases "split sep a") auto
  with Cons show ?case by simp
qed

lemma split_no_sep: "sep \<notin> set l \<Longrightarrow> split sep l = [l]"
  by (induction l) auto

lemma process_line_Nil: "process_line parse cbs [] s = s"
  by (simp add: process_line_def startsWith_def)

lemma process_chunk_Nil: "process_chunk parse cbs [] s = s"
  by (simp add: process_chunk_def process_line_Nil)

lemma process_chunk_append_nl:
  "process_chunk parse cbs (a @ nl # b) s = process_chunk parse cbs b (process_chunk parse cbs a s)"
  by (simp add: process_chunk_def split_append_sep)

lemma process_chunk_line:
  "nl \<notin> set l \<Longrightarrow> process_chunk parse cbs l s = process_line parse cbs l s"
  by (simp add: process_chunk_def split_no_sep)

lemma process_chunk_snoc_nl:
  "process_chunk parse cbs (a @ [nl]) s = process_chunk parse cbs a s"
  using process_chunk_append_nl [of parse cbs a "[]" s] by (simp add: process_chunk_Nil)

text \<open>A chunk that ends at the end of a line can be cut off from what follows it.\<close>

lemma process_chunk_append:
  assumes "c = [] \<or> last c = nl"
  shows "process_chunk parse cbs (c @ d) s = process_chunk parse cbs d (process_chunk parse cbs c s)"
proof (cases "c = []")
  case True
  then show ?thesis by (simp add: process_chunk_Nil)
next
  case False
  with assms have "c = butlast c @ [nl]"
    by (metis append_butlast_last_id)
  then obtain a where c: "c = a @ [nl]" ..
  show ?thesis
    unfolding c using process_chunk_append_nl [of parse cbs a d s]
    by (simp add: process_chunk_snoc_nl)
qed

lemma read_loop_chunks:
  "read_loop parse cbs (map Chunk cs) s = (foldl (\<lambda>s c. process_chunk parse cbs c s) s cs, None)"
  by (induction cs arbitrary: s) auto

lemma chunks_concat:
  assumes "\<forall>c \<in> set (butlast cs). c = [] \<or> last c = nl"
  shows "foldl (\<lambda>s c. process_chunk parse cbs c s) s cs = process_chunk parse cbs (concat cs) s"
  using assms
proof (induction cs arbitrary: s)
  case Nil
  show ?case by (simp add: process_chunk_Nil)
next
  case (Cons c cs)
  show ?case
  proof (cases "cs = []")
    case True
    then show ?thesis by simp
  next
    case False
    with Cons.prems have c: "c = [] \<or> last c = nl"
      and rest: "\<forall>c \<in> set (butlast cs). c = [] \<or> last c = nl"
      by auto
    show ?thesis
      by (simp add: Cons.IH [OF rest] process_chunk_append [OF c])
  qed
qed

lemma streamMessage_delivering:
  "streamMessage parse (delivering cs) q n cbs s =
     ((foldl (\<lambda>s c. process_chunk parse cbs c s) s cs, None),
      [Request (API_BASE_URL @ ''/api/stream'') q n True])"
  by (simp add: streamMessage_def stream_try_def delivering_def read_loop_chunks)

lemmas run_defs = events_def streamMessage_def stream_try_def delivering_def process_chunk_def
  process_line_def startsWith_def dispatch_def call_def call0_def recorder_def nullish_def
  parse_sample_def frame_done_def frame_token_def frame_error_def

text \<open>
  C1, as stated, fails: the decoder keeps nothing from one chunk to the next. The stream
  \<open>data: {"type":"done"}\<close> with its line feed gives the call \<open>onDone()\<close> when it comes in one
  chunk, and no call at all when the chunk boundary falls inside the frame.
\<close>

theorem chunk_boundary_counterexample:
  "concat [''data: {\"ty'', ''pe\":\"done\"}'' @ [nl]] = ''data: '' @ frame_done @ [nl]
   \<and> events parse_sample (delivering [''data: '' @ frame_done @ [nl]]) = [Done]
   \<and> events parse_sample (delivering [''data: {\"ty'', ''pe\":\"done\"}'' @ [nl]]) = []"
  by (simp add: run_defs char_defs)

text \<open>
  C1, amended. When every chunk but the last is empty or ends with a line feed, that is,
  when no chunk boundary falls inside a line, the decoder does on the chunks what it does on
  the whole stream in one chunk: the same calls with the same arguments in the same order,
  for any callbacks and any state of theirs.
\<close>

theorem chunk_boundaries_at_line_ends:
  assumes "\<forall>c \<in> set (butlast cs). c = [] \<or> last c = nl"
  shows "streamMessage parse (delivering cs) q n cbs s
           = streamMessage parse (delivering [concat cs]) q n cbs s
         \<and> events parse (delivering cs) = events parse (delivering [concat cs])"
  by (simp add: streamMessage_delivering events_def chunks_concat [OF assms])

text \<open>The amended C1 on a token frame and a done frame, one chunk each.\<close>

theorem chunk_boundaries_at_line_ends_witness:
  "events parse_sample (delivering [''data: '' @ frame_token @ [nl], ''data: '' @ frame_done @ [nl]])
       = [Token (JStr ''partial''), Done]
   \<and> events parse_sample (delivering [concat [''data: '' @ frame_token @ [nl], ''data: '' @ frame_done @ [nl]]])
       = [Token (JStr ''partial''), Done]"
proof -
  have h: "\<forall>c \<in> set (butlast [''data: '' @ frame_token @ [nl], ''data: '' @ frame_done @ [nl]]). c = [] \<or> last c = nl"
    by simp
  have e: "events parse_sample (delivering [''data: '' @ frame_token @ [nl], ''data: '' @ frame_done @ [nl]])
       = [Token (JStr ''partial''), Done]"
    by (simp add: run_defs char_defs)
  from chunk_boundaries_at_line_ends [OF h, of parse_sample "[]" 3 recorder "[]"] e
  show ?thesis by (simp add: events_def)
qed

section \<open>The recorded calls determine the run\<close>

lemma dispatch_recorder_log:
  "fst (dispatch recorder data log) = log @ fst (dispatch recorder data [])"
  by (simp add: dispatch_def recorder_def call_def call0_def Let_def)

lemma dispatch_replay:
  "fst (dispatch cbs data s) = foldl (\<lambda>s e. deliver cbs e s) s (fst (dispatch recorder data []))"
  by (simp add: dispatch_def recorder_def call_def call0_def Let_def deliver_def)

lemma process_line_recorder_log:
  "process_line parse recorder line log = log @ process_line parse recorder line []"
  by (cases "parse (drop 6 line)")
     (simp_all add: process_line_def dispatch_recorder_log [of _ log])

lemma process_line_replay:
  "process_line parse cbs line s
     = foldl (\<lambda>s e. deliver cbs e s) s (process_line parse recorder line [])"
  by (cases "parse (drop 6 line)")
     (simp_all add: process_line_def dispatch_replay [of cbs _ s])

lemma lines_recorder_log:
  "foldl (\<lambda>s line. process_line parse recorder line s) log ls
     = log @ foldl (\<lambda>s line. process_line parse recorder line s) [] ls"
proof (induction ls arbitrary: log)
  case Nil
  show ?case by simp
next
  case (Cons l ls)
  show ?case
    using Cons.IH [of "process_line parse recorder l log"]
      Cons.IH [of "process_line parse recorder l []"]
      process_line_recorder_log [of parse l log]
    by simp
qed

lemma lines_replay:
  "foldl (\<lambda>s line. process_line parse cbs line s) s ls
     = foldl (\<lambda>s e. deliver cbs e s) s (foldl (\<lambda>s line. process_line parse recorder line s) [] ls)"
proof (induction ls arbitrary: s)
  case Nil
  show ?case by simp
next
  case (Cons l ls)
  have "foldl (\<lambda>s line. process_line parse recorder line s) [] (l # ls)
      = process_line parse recorder l []
          @ foldl (\<lambda>s line. process_line parse recorder line s) [] ls"
    using lines_recorder_log [of parse "process_line parse recorder l []" ls] by simp
  then show ?case
    using Cons.IH [of "process_line parse cbs l s"] process_line_replay [of parse cbs l s]
    by simp
qed

lemma process_chunk_recorder_log:
  "process_chunk parse recorder c log = log @ process_chunk parse recorder c []"
  unfolding process_chunk_def by (rule lines_recorder_log)

lemma process_chunk_replay:
  "process_chunk parse cbs c s = foldl (\<lambda>s e. deliver cbs e s) s (process_chunk parse recorder c [])"
  unfolding process_chunk_def by (rule lines_replay)

text \<open>What a read loop throws does not depend on the callbacks.\<close>

lemma read_loop_thrown:
  "snd (read_loop parse cbs rs s) = snd (read_loop parse cbs' rs s')"
proof (induction rs arbitrary: s s')
  case Nil
  show ?case by simp
next
  case (Cons r rs)
  show ?case
  proof (cases r)
    case (Chunk c)
    then show ?thesis
      using Cons.IH [of "process_chunk parse cbs c s" "process_chunk parse cbs' c s'"] by simp
  next
    case (ReadThrows e)
    then show ?thesis by simp
  qed
qed

lemma read_loop_recorder_log:
  "fst (read_loop parse recorder rs log) = log @ fst (read_loop parse recorder rs [])"
proof (induction rs arbitrary: log)
  case Nil
  show ?case by simp
next
  case (Cons r rs)
  show ?case
  proof (cases r)
    case (Chunk c)
    then show ?thesis
      using Cons.IH [of "process_chunk parse recorder c log"]
        Cons.IH [of "process_chunk parse recorder c []"]
        process_chunk_recorder_log [of parse c log]
      by simp
  next
    case (ReadThrows e)
    then show ?thesis by simp
  qed
qed

lemma read_loop_replay:
  "fst (read_loop parse cbs rs s)
     = foldl (\<lambda>s e. deliver cbs e s) s (fst (read_loop parse recorder rs []))"
proof (induction rs arbitrary: s)
  case Nil
  show ?case by simp
next
  case (Cons r rs)
  show ?case
  proof (cases r)
    case (Chunk c)
    have "fst (read_loop parse recorder (Chunk c # rs) [])
        = process_chunk parse recorder c [] @ fst (read_loop parse recorder rs [])"
      using read_loop_recorder_log [of parse rs "process_chunk parse recorder c []"] by simp
    with Chunk show ?thesis
      using Cons.IH [of "process_chunk parse cbs c s"] process_chunk_replay [of parse cbs c s]
      by simp
  next
    case (ReadThrows e)
    then show ?thesis by simp
  qed
qed

lemma stream_try_thrown:
  "snd (stream_try parse cbs fetched s) = snd (stream_try parse cbs' fetched s')"
  using read_loop_thrown [of parse cbs _ s cbs' s']
  by (simp add: stream_try_def split: sum.splits)

lemma stream_try_replay:
  "fst (stream_try parse cbs fetched s)
     = foldl (\<lambda>s e. deliver cbs e s) s (fst (stream_try parse recorder fetched []))"
  using read_loop_replay [of parse cbs _ s]
  by (simp add: stream_try_def split: sum.splits)

text \<open>
  Whatever the callbacks, \<open>streamMessage\<close> leaves the state that the recorded calls, delivered
  one by one, leave.
\<close>

lemma streamMessage_replay:
  "fst (fst (streamMessage parse fetched q n cbs s))
     = foldl (\<lambda>s e. deliver cbs e s) s (events parse fetched)"
proof -
  obtain s1 t1 where a: "stream_try parse cbs fetched s = (s1, t1)"
    by (cases "stream_try parse cbs fetched s")
  obtain l2 t2 where b: "stream_try parse recorder fetched [] = (l2, t2)"
    by (cases "stream_try parse recorder fetched []")
  from a b have t: "t1 = t2"
    using stream_try_thrown [of parse cbs fetched s recorder "[]"] by simp
  from a b have r: "s1 = foldl (\<lambda>s e. deliver cbs e s) s l2"
    using stream_try_replay [of parse cbs fetched s] by simp
  show ?thesis
  proof (cases t2)
    case None
    with a b t r show ?thesis
      by (simp add: streamMessage_def events_def)
  next
    case (Some e)
    with a b t r show ?thesis
      by (simp add: streamMessage_def events_def deliver_def recorder_def call_def)
  qed
qed

section \<open>A malformed frame\<close>

lemma lines_events:
  "foldl (\<lambda>s line. process_line parse recorder line s) [] ls
     = concat (map (line_events parse) ls)"
proof (induction ls)
  case Nil
  show ?case by simp
next
  case (Cons l ls)
  from lines_recorder_log [of parse "process_line parse recorder l []" ls] Cons
  show ?case by (simp add: line_events_def)
qed

lemma chunk_events: "process_chunk parse recorder c [] = concat (map (line_events parse) (split nl c))"
  unfolding process_chunk_def by (rule lines_events)

lemma chunks_events:
  "foldl (\<lambda>s c. process_chunk parse recorder c s) [] cs
     = concat (map (\<lambda>c. concat (map (line_events parse) (split nl c))) cs)"
proof -
  have "foldl (\<lambda>s c. process_chunk parse recorder c s) log cs
      = log @ concat (map (\<lambda>c. concat (map (line_events parse) (split nl c))) cs)" for log
  proof (induction cs arbitrary: log)
    case Nil
    show ?case by simp
  next
    case (Cons c cs)
    from Cons [of "process_chunk parse recorder c log"]
      process_chunk_recorder_log [of parse c log]
    show ?case by (simp add: chunk_events)
  qed
  from this [of "[]"] show ?thesis by simp
qed

text \<open>The calls of a stream that arrives whole: those of its lines, chunk by chunk.\<close>

lemma events_chunks:
  "events parse (Inr \<lparr>ok = True, status = st, body = Inr (map Chunk cs)\<rparr>)
     = concat (map (line_events parse) (concat (map (split nl) cs)))"
proof -
  have "concat (map (\<lambda>c. concat (map (line_events parse) (split nl c))) cs)
      = concat (map (line_events parse) (concat (map (split nl) cs)))"
    by (induction cs) simp_all
  then show ?thesis
    by (simp add: events_def streamMessage_def stream_try_def read_loop_chunks chunks_events)
qed

lemma streamMessage_chunks_thrown:
  "snd (fst (streamMessage parse (Inr \<lparr>ok = True, status = st, body = Inr (map Chunk cs)\<rparr>) q n cbs s))
     = None"
  by (simp add: streamMessage_def stream_try_def read_loop_chunks)

lemma process_chunk_drop_line:
  assumes "startsWith ''data: '' l" and "parse (drop 6 l) = None" and "nl \<notin> set l"
    and "a = [] \<or> last a = nl"
  shows "process_chunk parse cbs (a @ l @ nl # b) s
           = process_chunk parse cbs b (process_chunk parse cbs a s)"
proof -
  have line: "process_line parse cbs l s' = s'" for s'
    using assms(1,2) by (simp add: process_line_def)
  have "process_chunk parse cbs (a @ l @ nl # b) s
          = process_chunk parse cbs (l @ nl # b) (process_chunk parse cbs a s)"
    by (rule process_chunk_append [OF assms(4)])
  also have "\<dots> = process_chunk parse cbs b (process_chunk parse cbs l (process_chunk parse cbs a s))"
    by (rule process_chunk_append_nl)
  also have "\<dots> = process_chunk parse cbs b (process_chunk parse cbs a s)"
    by (simp add: process_chunk_line [OF assms(3)] line)
  finally show ?thesis .
qed

lemma line_events_frame:
  assumes "startsWith ''data: '' f" and "parse (drop 6 f) = Some d" and "\<not> nullish d"
  shows "line_events parse f =
     (if js_get d ''type'' = JStr ''token'' then [Token (js_get d ''content'')]
      else if js_get d ''type'' = JStr ''sources'' then [Sources (js_get d ''sources'')]
      else if js_get d ''type'' = JStr ''error'' then [Error (js_get d ''error'')]
      else if js_get d ''type'' = JStr ''done'' then [Done]
      else [])"
  using assms
  by (simp add: line_events_def process_line_def dispatch_def recorder_def call_def call0_def Let_def)

text \<open>
  C9. A line that starts with \<open>data: \<close> and whose payload \<open>JSON.parse\<close> rejects changes
  nothing and throws nothing, and the run is the run on the stream without the line. The
  loop goes on: on a stream of chunks the calls made are those of every other line, of the
  chunks before, of the rest of the same chunk and of the chunks after, in their order;
  nothing is thrown to the caller, and any callbacks are left in the state that these calls,
  delivered one by one, leave. A line with a well-formed frame gives the one call of its
  type, with its payload.
\<close>

theorem malformed_frame_isolated:
  assumes "startsWith ''data: '' l" and "parse (drop 6 l) = None" and "nl \<notin> set l"
    and "a = [] \<or> last a = nl"
  shows "process_line parse cbs l s = s
    \<and> streamMessage parse (Inr \<lparr>ok = True, status = st, body = Inr (pre @ Chunk (a @ l @ nl # b) # post)\<rparr>) q n cbs s
      = streamMessage parse (Inr \<lparr>ok = True, status = st, body = Inr (pre @ Chunk (a @ b) # post)\<rparr>) q n cbs s
    \<and> events parse (Inr \<lparr>ok = True, status = st, body = Inr (map Chunk (cs @ (a @ l @ nl # b) # ds))\<rparr>)
      = concat (map (line_events parse)
          (concat (map (split nl) cs) @ split nl a @ split nl b @ concat (map (split nl) ds)))
    \<and> snd (fst (streamMessage parse
          (Inr \<lparr>ok = True, status = st, body = Inr (map Chunk (cs @ (a @ l @ nl # b) # ds))\<rparr>) q n cbs s))
      = None
    \<and> fst (fst (streamMessage parse
          (Inr \<lparr>ok = True, status = st, body = Inr (map Chunk (cs @ (a @ l @ nl # b) # ds))\<rparr>) q n cbs s))
      = foldl (\<lambda>s e. deliver cbs e s) s
          (concat (map (line_events parse)
             (concat (map (split nl) cs) @ split nl a @ split nl b @ concat (map (split nl) ds))))
    \<and> (startsWith ''data: '' f \<and> parse (drop 6 f) = Some d \<and> \<not> nullish d \<longrightarrow>
          line_events parse f =
            (if js_get d ''type'' = JStr ''token'' then [Token (js_get d ''content'')]
             else if js_get d ''type'' = JStr ''sources'' then [Sources (js_get d ''sources'')]
             else if js_get d ''type'' = JStr ''error'' then [Error (js_get d ''error'')]
             else if js_get d ''type'' = JStr ''done'' then [Done]
             else []))"
proof -
  let ?F = "Inr \<lparr>ok = True, status = st, body = Inr (map Chunk (cs @ (a @ l @ nl # b) # ds))\<rparr>"
  let ?lines = "concat (map (split nl) cs) @ split nl a @ split nl b @ concat (map (split nl) ds)"
  have line: "process_line parse cbs l s = s"
    using assms(1,2) by (simp add: process_line_def)
  have "process_chunk parse cbs (a @ l @ nl # b) s' = process_chunk parse cbs (a @ b) s'" for s'
  proof -
    have "process_chunk parse cbs (a @ l @ nl # b) s'
            = process_chunk parse cbs b (process_chunk parse cbs a s')"
      using assms by (rule process_chunk_drop_line)
    also have "\<dots> = process_chunk parse cbs (a @ b) s'"
      by (rule process_chunk_append [OF assms(4), symmetric])
    finally show ?thesis .
  qed
  then have "read_loop parse cbs (pre @ Chunk (a @ l @ nl # b) # post) s
           = read_loop parse cbs (pre @ Chunk (a @ b) # post) s"
    by (induction parse cbs pre s rule: read_loop.induct) auto
  then have same: "streamMessage parse (Inr \<lparr>ok = True, status = st, body = Inr (pre @ Chunk (a @ l @ nl # b) # post)\<rparr>) q n cbs s
      = streamMessage parse (Inr \<lparr>ok = True, status = st, body = Inr (pre @ Chunk (a @ b) # post)\<rparr>) q n cbs s"
    by (simp add: streamMessage_def stream_try_def)
  have "concat (map (line_events parse) (split nl (a @ l @ nl # b)))
      = concat (map (line_events parse) (split nl a)) @ concat (map (line_events parse) (split nl b))"
    using process_chunk_drop_line
        [where l = l and a = a and parse = parse and cbs = recorder and b = b and s = "[]", OF assms]
      process_chunk_recorder_log [of parse b "process_chunk parse recorder a []"]
    by (simp add: chunk_events [symmetric])
  then have mid: "concat (map (line_events parse) (concat (map (split nl) (cs @ (a @ l @ nl # b) # ds))))
      = concat (map (line_events parse) ?lines)"
    by simp
  have "events parse ?F
      = concat (map (line_events parse) (concat (map (split nl) (cs @ (a @ l @ nl # b) # ds))))"
    by (rule events_chunks)
  also note mid
  finally have ev: "events parse ?F = concat (map (line_events parse) ?lines)" .
  have thrown: "snd (fst (streamMessage parse ?F q n cbs s)) = None"
    by (rule streamMessage_chunks_thrown)
  have state: "fst (fst (streamMessage parse ?F q n cbs s))
      = foldl (\<lambda>s e. deliver cbs e s) s (concat (map (line_events parse) ?lines))"
    using streamMessage_replay [of parse ?F q n cbs s] by (simp only: ev)
  have frame: "startsWith ''data: '' f \<and> parse (drop 6 f) = Some d \<and> \<not> nullish d \<longrightarrow>
          line_events parse f =
            (if js_get d ''type'' = JStr ''token'' then [Token (js_get d ''content'')]
             else if js_get d ''type'' = JStr ''sources'' then [Sources (js_get d ''sources'')]
             else if js_get d ''type'' = JStr ''error'' then [Error (js_get d ''error'')]
             else if js_get d ''type'' = JStr ''done'' then [Done]
             else [])"
    using line_events_frame [of f parse d] by blast
  from line same ev thrown state frame show ?thesis by blast
qed

text \<open>
  C9 on a stream of three chunks: a token frame; a token frame and a line cut short; a done
  frame. The two tokens and the done frame of the later chunk are dispatched, in this order.
\<close>

theorem malformed_frame_isolated_witness:
  "startsWith ''data: '' ''data: {\"type\":'' \<and> parse_sample (drop 6 ''data: {\"type\":'') = None
   \<and> nl \<notin> set ''data: {\"type\":''
   \<and> ((''data: '' @ frame_token @ [nl]) = [] \<or> last (''data: '' @ frame_token @ [nl]) = nl)
   \<and> events parse_sample
        (delivering [''data: '' @ frame_token @ [nl],
                     (''data: '' @ frame_token @ [nl]) @ ''data: {\"type\":'' @ nl # [],
                     ''data: '' @ frame_done @ [nl]])
       = [Token (JStr ''partial''), Token (JStr ''partial''), Done]
   \<and> line_events parse_sample (''data: '' @ frame_done) = [Done]"
proof -
  have h1: "startsWith ''data: '' ''data: {\"type\":''"
    by (simp add: startsWith_def)
  have h2: "parse_sample (drop 6 ''data: {\"type\":'') = None"
    by (simp add: parse_sample_def frame_done_def frame_token_def frame_error_def)
  have h3: "nl \<notin> set ''data: {\"type\":''"
    by (simp add: nl_def)
  have h4: "(''data: '' @ frame_token @ [nl]) = [] \<or> last (''data: '' @ frame_token @ [nl]) = nl"
    by simp
  have f1: "startsWith ''data: '' (''data: '' @ frame_done)"
    by (simp add: startsWith_def)
  have f2: "parse_sample (drop 6 (''data: '' @ frame_done)) = Some (JObj [(''type'', JStr ''done'')])"
    by (simp add: parse_sample_def frame_done_def frame_token_def frame_error_def)
  have f3: "\<not> nullish (JObj [(''type'', JStr ''done'')])"
    by (simp add: nullish_def)
  note T = malformed_frame_isolated
         [where parse = parse_sample and l = "''data: {\"type\":''"
            and a = "''data: '' @ frame_token @ [nl]" and b = "[]"
            and cs = "[''data: '' @ frame_token @ [nl]]" and ds = "[''data: '' @ frame_done @ [nl]]"
            and st = 200 and f = "''data: '' @ frame_done" and d = "JObj [(''type'', JStr ''done'')]",
          OF h1 h2 h3 h4]
  note ev = T [THEN conjunct2, THEN conjunct2, THEN conjunct1]
  note frame = T [THEN conjunct2, THEN conjunct2, THEN conjunct2, THEN conjunct2, THEN conjunct2]
  have lines: "concat (map (line_events parse_sample)
          (concat (map (split nl) [''data: '' @ frame_token @ [nl]])
             @ split nl (''data: '' @ frame_token @ [nl]) @ split nl []
             @ concat (map (split nl) [''data: '' @ frame_done @ [nl]])))
       = [Token (JStr ''partial''), Token (JStr ''partial''), Done]"
    by (simp add: line_events_def run_defs char_defs)
  from frame f1 f2 f3 have d: "line_events parse_sample (''data: '' @ frame_done) = [Done]"
    by simp
  from ev lines have "events parse_sample
        (delivering [''data: '' @ frame_token @ [nl],
                     (''data: '' @ frame_token @ [nl]) @ ''data: {\"type\":'' @ nl # [],
                     ''data: '' @ frame_done @ [nl]])
       = [Token (JStr ''partial''), Token (JStr ''partial''), Done]"
    by (simp add: delivering_def)
  with d h1 h2 h3 h4 show ?thesis by simp
qed

section \<open>What the callbacks of a bot message do to the ledger\<close>

lemma deliver_handlers:
  "\<exists>t' f. deliver (handlers i) e (t, msgs) = (t', map (\<lambda>m. if msg_id m = i then f m else m) msgs)
      \<and> (\<forall>m. msg_id (f m) = msg_id m \<and> sender (f m) = sender m \<and> (streaming (f m) \<longrightarrow> streaming m))
      \<and> (closing e \<longrightarrow> (\<forall>m. \<not> streaming (f m)))"
proof (cases e)
  case (Token v)
  show ?thesis
  proof (cases "ToString v")
    case None
    with Token have "deliver (handlers i) e (t, msgs) = (t, map (\<lambda>m. if msg_id m = i then (\<lambda>m. m) m else m) msgs)"
      by (simp add: deliver_def handlers_def call_def token_handler_def)
    with Token show ?thesis by (intro exI [of _ t] exI [of _ "\<lambda>m. m"]) simp
  next
    case (Some s)
    with Token have "deliver (handlers i) e (t, msgs)
        = (t @ s, map (\<lambda>m. if msg_id m = i then (\<lambda>m. m\<lparr>msg_text := JStr (t @ s)\<rparr>) m else m) msgs)"
      by (simp add: deliver_def handlers_def call_def token_handler_def patch_def Let_def)
    with Token show ?thesis
      by (intro exI [of _ "t @ s"] exI [of _ "\<lambda>m. m\<lparr>msg_text := JStr (t @ s)\<rparr>"])
         (simp add: streaming_def)
  qed
next
  case (Sources v)
  then have "deliver (handlers i) e (t, msgs)
      = (t, map (\<lambda>m. if msg_id m = i then (\<lambda>m. m\<lparr>sources := v\<rparr>) m else m) msgs)"
    by (simp add: deliver_def handlers_def call_def sources_handler_def patch_def)
  with Sources show ?thesis
    by (intro exI [of _ t] exI [of _ "\<lambda>m. m\<lparr>sources := v\<rparr>"]) (simp add: streaming_def)
next
  case (Error v)
  then have "deliver (handlers i) e (t, msgs)
      = (t, map (\<lambda>m. if msg_id m = i
                      then (\<lambda>m. m\<lparr>msg_text := JStr ''Sorry, an error occurred.'', isStreaming := Some False\<rparr>) m
                      else m) msgs)"
    by (simp add: deliver_def handlers_def call_def error_handler_def patch_def)
  with Error show ?thesis
    by (intro exI [of _ t]
          exI [of _ "\<lambda>m. m\<lparr>msg_text := JStr ''Sorry, an error occurred.'', isStreaming := Some False\<rparr>"])
       (simp add: streaming_def)
next
  case Done
  then have "deliver (handlers i) e (t, msgs)
      = (t, map (\<lambda>m. if msg_id m = i then (\<lambda>m. m\<lparr>isStreaming := Some False\<rparr>) m else m) msgs)"
    by (simp add: deliver_def handlers_def call0_def done_handler_def patch_def)
  with Done show ?thesis
    by (intro exI [of _ t] exI [of _ "\<lambda>m. m\<lparr>isStreaming := Some False\<rparr>"]) (simp add: streaming_def)
qed

text \<open>
  A run of the callbacks of one bot message changes the ledger message by message: it leaves
  the messages with another id as they are, keeps every id and sender, starts no streaming,
  and, once a closing call was made, leaves no message of its id streaming.
\<close>

lemma run_handlers:
  "\<exists>t' g. foldl (\<lambda>s e. deliver (handlers i) e s) (t, msgs) evs = (t', map g msgs)
      \<and> (\<forall>m. msg_id m \<noteq> i \<longrightarrow> g m = m)
      \<and> (\<forall>m. msg_id (g m) = msg_id m \<and> sender (g m) = sender m \<and> (streaming (g m) \<longrightarrow> streaming m))
      \<and> (list_ex closing evs \<longrightarrow> (\<forall>m. msg_id m = i \<longrightarrow> \<not> streaming (g m)))"
proof (induction evs arbitrary: t msgs)
  case Nil
  show ?case by (intro exI [of _ t] exI [of _ "\<lambda>m. m"]) simp
next
  case (Cons e evs)
  from deliver_handlers [of i e t msgs] obtain t1 f where
    d: "deliver (handlers i) e (t, msgs) = (t1, map (\<lambda>m. if msg_id m = i then f m else m) msgs)"
    and f: "\<forall>m. msg_id (f m) = msg_id m \<and> sender (f m) = sender m \<and> (streaming (f m) \<longrightarrow> streaming m)"
    and fc: "closing e \<longrightarrow> (\<forall>m. \<not> streaming (f m))"
    by (elim exE conjE)
  let ?f = "\<lambda>m. if msg_id m = i then f m else m"
  from Cons.IH [of t1 "map ?f msgs"] obtain t2 g where
    r: "foldl (\<lambda>s e. deliver (handlers i) e s) (t1, map ?f msgs) evs = (t2, map g (map ?f msgs))"
    and g1: "\<forall>m. msg_id m \<noteq> i \<longrightarrow> g m = m"
    and g2: "\<forall>m. msg_id (g m) = msg_id m \<and> sender (g m) = sender m \<and> (streaming (g m) \<longrightarrow> streaming m)"
    and gc: "list_ex closing evs \<longrightarrow> (\<forall>m. msg_id m = i \<longrightarrow> \<not> streaming (g m))"
    by (elim exE conjE)
  have f_id: "msg_id (f m) = msg_id m" and f_sender: "sender (f m) = sender m" for m
    using f by blast+
  have f_str: "streaming (f m) \<Longrightarrow> streaming m" for m
    using f by blast
  have g_id: "msg_id (g m) = msg_id m" and g_sender: "sender (g m) = sender m" for m
    using g2 by blast+
  have g_str: "streaming (g m) \<Longrightarrow> streaming m" for m
    using g2 by blast
  have g_other: "msg_id m \<noteq> i \<Longrightarrow> g m = m" for m
    using g1 by blast
  have A: "foldl (\<lambda>s e. deliver (handlers i) e s) (t, msgs) (e # evs) = (t2, map (g \<circ> ?f) msgs)"
    by (simp add: d r)
  have B: "\<forall>m. msg_id m \<noteq> i \<longrightarrow> (g \<circ> ?f) m = m"
    by (simp add: g_other)
  have C: "\<forall>m. msg_id ((g \<circ> ?f) m) = msg_id m \<and> sender ((g \<circ> ?f) m) = sender m
                    \<and> (streaming ((g \<circ> ?f) m) \<longrightarrow> streaming m)"
  proof (intro allI conjI impI)
    fix m :: chat_message
    show "msg_id ((g \<circ> ?f) m) = msg_id m" by (simp add: g_id f_id)
    show "sender ((g \<circ> ?f) m) = sender m" by (simp add: g_sender f_sender)
    assume "streaming ((g \<circ> ?f) m)"
    then have "streaming (?f m)" using g_str [of "?f m"] by simp
    then show "streaming m" using f_str [of m] by (cases "msg_id m = i") simp_all
  qed
  have D: "list_ex closing (e # evs) \<longrightarrow> (\<forall>m. msg_id m = i \<longrightarrow> \<not> streaming ((g \<circ> ?f) m))"
  proof (intro impI allI)
    fix m :: chat_message
    assume c: "list_ex closing (e # evs)" and m: "msg_id m = i"
    show "\<not> streaming ((g \<circ> ?f) m)"
    proof (cases "closing e")
      case True
      with fc have "\<not> streaming (f m)" by blast
      then have "\<not> streaming (g (f m))" using g_str [of "f m"] by blast
      with m show ?thesis by simp
    next
      case False
      with c have "list_ex closing evs" by simp
      with gc have "\<not> streaming (g (f m))" using f_id [of m] m by blast
      with m show ?thesis by simp
    qed
  qed
  show ?case
  proof (intro exI conjI)
    show "foldl (\<lambda>s e. deliver (handlers i) e s) (t, msgs) (e # evs) = (t2, map (g \<circ> ?f) msgs)"
      by (rule A)
    show "\<forall>m. msg_id m \<noteq> i \<longrightarrow> (g \<circ> ?f) m = m" by (rule B)
    show "\<forall>m. msg_id ((g \<circ> ?f) m) = msg_id m \<and> sender ((g \<circ> ?f) m) = sender m
                    \<and> (streaming ((g \<circ> ?f) m) \<longrightarrow> streaming m)" by (rule C)
    show "list_ex closing (e # evs) \<longrightarrow> (\<forall>m. msg_id m = i \<longrightarrow> \<not> streaming ((g \<circ> ?f) m))"
      by (rule D)
  qed
qed

lemma streamMessage_handlers_never_throws:
  "snd (fst (streamMessage parse fetched q n (handlers i) s)) = None"
proof -
  obtain s1 t1 where a: "stream_try parse (handlers i) fetched s = (s1, t1)"
    by (cases "stream_try parse (handlers i) fetched s")
  obtain x y where s1: "s1 = (x, y)" by (cases s1)
  show ?thesis
    using a s1
    by (cases t1) (simp_all add: streamMessage_def handlers_def call_def error_handler_def)
qed

lemma handleStreamingResponse_run:
  "handleStreamingResponse parse now fetched q prev =
     ((snd (foldl (\<lambda>s e. deliver (handlers (now + 1)) e s)
              ([], prev @ [\<lparr>msg_id = now + 1, msg_text = JStr [], sender = Bot,
                            sources = JArr [], isStreaming = Some True\<rparr>])
              (events parse fetched)), None),
      [Request (API_BASE_URL @ ''/api/stream'') q 3 True])"
proof -
  let ?s = "([], prev @ [\<lparr>msg_id = now + 1, msg_text = JStr [], sender = Bot,
                            sources = JArr [], isStreaming = Some True\<rparr>])"
  let ?r = "streamMessage parse fetched q 3 (handlers (now + 1)) ?s"
  have 1: "fst (fst ?r) = foldl (\<lambda>s e. deliver (handlers (now + 1)) e s) ?s (events parse fetched)"
    by (rule streamMessage_replay)
  have 2: "snd (fst ?r) = None"
    by (rule streamMessage_handlers_never_throws)
  have 3: "snd ?r = [Request (API_BASE_URL @ ''/api/stream'') q 3 True]"
    by (simp add: streamMessage_def)
  obtain a b ba x2 where eq: "?r = (((a, b), ba), x2)"
    by (metis prod.exhaust)
  from 1 have "snd (fst (fst ?r)) = snd (foldl (\<lambda>s e. deliver (handlers (now + 1)) e s) ?s (events parse fetched))"
    by (rule arg_cong)
  then have b: "b = snd (foldl (\<lambda>s e. deliver (handlers (now + 1)) e s) ?s (events parse fetched))"
    unfolding eq by simp
  from 2 3 have "ba = None" and "x2 = [Request (API_BASE_URL @ ''/api/stream'') q 3 True]"
    unfolding eq by simp_all
  with b show ?thesis
    using eq by (simp add: handleStreamingResponse_def Let_def)
qed

section \<open>Properties of the session controller\<close>

lemmas submit_defs = handleSubmit_def handleStreamingResponse_def handleRegularResponse_def
  sendMessage_def addErrorMessage_def handlers_def token_handler_def sources_handler_def
  error_handler_def done_handler_def patch_def initial_state_def streaming_env_def
  answering_env_def failure_text_def http_error_def API_BASE_URL_def

lemma trim_spaces: "\<forall>c \<in> set s. is_space c \<Longrightarrow> trim s = []"
proof -
  assume "\<forall>c \<in> set s. is_space c"
  then have d: "dropWhile is_space s = []" by (induction s) auto
  show ?thesis unfolding trim_def d by simp
qed

text \<open>
  C8. When the query is empty or consists of white space only, or when a request is in
  flight (\<open>isLoading\<close>), \<open>handleSubmit\<close> leaves the whole state as it is, the ledger and
  the busy flag included, and sends no request.
\<close>

theorem rejected_submit_is_noop:
  assumes "(\<forall>c \<in> set (message st). is_space c) \<or> isLoading st"
  shows "handleSubmit parse env st = (st, [])"
  using assms by (auto simp add: handleSubmit_def trim_spaces)

text \<open>
  C8 on the empty query, on a query of three spaces and on a query submitted while busy;
  the same query submitted while idle sends its one request.
\<close>

theorem rejected_submit_is_noop_witness:
  "handleSubmit parse_sample (streaming_env 1000 [''data: '' @ frame_done @ [nl]])
        (initial_state\<lparr>message := []\<rparr>)
       = (initial_state\<lparr>message := []\<rparr>, [])
   \<and> handleSubmit parse_sample (streaming_env 1000 [''data: '' @ frame_done @ [nl]])
        (initial_state\<lparr>message := ''   ''\<rparr>)
       = (initial_state\<lparr>message := ''   ''\<rparr>, [])
   \<and> handleSubmit parse_sample (streaming_env 1000 [''data: '' @ frame_done @ [nl]])
        (initial_state\<lparr>message := ''again'', isLoading := True\<rparr>)
       = (initial_state\<lparr>message := ''again'', isLoading := True\<rparr>, [])
   \<and> snd (handleSubmit parse_sample (streaming_env 1000 [''data: '' @ frame_done @ [nl]])
        (initial_state\<lparr>message := ''again''\<rparr>))
       = [Request ''http://localhost:8000/api/stream'' ''again'' 3 True]"
proof -
  have e: "(\<forall>c \<in> set (message (initial_state\<lparr>message := []\<rparr>)). is_space c)
           \<or> isLoading (initial_state\<lparr>message := []\<rparr>)"
    by simp
  have a: "(\<forall>c \<in> set (message (initial_state\<lparr>message := ''   ''\<rparr>)). is_space c)
           \<or> isLoading (initial_state\<lparr>message := ''   ''\<rparr>)"
    by (simp add: is_space_def)
  have b: "(\<forall>c \<in> set (message (initial_state\<lparr>message := ''again'', isLoading := True\<rparr>)). is_space c)
           \<or> isLoading (initial_state\<lparr>message := ''again'', isLoading := True\<rparr>)"
    by simp
  have c: "snd (handleSubmit parse_sample (streaming_env 1000 [''data: '' @ frame_done @ [nl]])
        (initial_state\<lparr>message := ''again''\<rparr>))
       = [Request ''http://localhost:8000/api/stream'' ''again'' 3 True]"
    by (simp add: submit_defs run_defs trim_def is_space_def char_defs Let_def)
  from rejected_submit_is_noop [OF e] rejected_submit_is_noop [OF a]
    rejected_submit_is_noop [OF b] c
  show ?thesis by simp
qed

text \<open>
  C7. When the decoder dispatches a frame of type \<open>error\<close> to the callbacks of the bot message
  \<open>botMessageId\<close>, every message with that id gets the fixed text
  \<open>Sorry, an error occurred.\<close> in place of whatever text it had, and \<open>isStreaming = false\<close>;
  its other properties, and every message with another id, stay as they are. The local
  \<open>streamedText\<close> is not reset.
\<close>

theorem error_event_closes_message:
  assumes "startsWith ''data: '' line" and "parse (drop 6 line) = Some data"
    and "js_get data ''type'' = JStr ''error''"
    and "process_line parse (handlers botMessageId) line (streamedText, prev) = (streamedText', msgs)"
  shows "streamedText' = streamedText \<and> length msgs = length prev
    \<and> (\<forall>k < length prev.
          if msg_id (prev ! k) = botMessageId
          then msgs ! k = (prev ! k)\<lparr>msg_text := JStr ''Sorry, an error occurred.'',
                                      isStreaming := Some False\<rparr>
          else msgs ! k = prev ! k)"
proof -
  from assms(3) have "\<not> nullish data"
    by (auto simp add: nullish_def)
  with assms(1-3) have "process_line parse (handlers botMessageId) line (streamedText, prev)
      = (streamedText,
         patch botMessageId
           (\<lambda>msg. msg\<lparr>msg_text := JStr ''Sorry, an error occurred.'', isStreaming := Some False\<rparr>)
           prev)"
    by (simp add: process_line_def dispatch_def call_def handlers_def error_handler_def)
  with assms(4) have "streamedText' = streamedText" and "msgs = patch botMessageId
           (\<lambda>msg. msg\<lparr>msg_text := JStr ''Sorry, an error occurred.'', isStreaming := Some False\<rparr>)
           prev"
    by simp_all
  then show ?thesis
    by (simp add: patch_def)
qed


text \<open>C7 on a ledger of a user message and an open bot message that holds a partial text.\<close>

theorem error_event_closes_message_witness:
  "startsWith ''data: '' (''data: '' @ frame_error)
   \<and> parse_sample (drop 6 (''data: '' @ frame_error))
        = Some (JObj [(''type'', JStr ''error''), (''error'', JStr ''boom'')])
   \<and> js_get (JObj [(''type'', JStr ''error''), (''error'', JStr ''boom'')]) ''type'' = JStr ''error''
   \<and> process_line parse_sample (handlers 1001) (''data: '' @ frame_error)
        (''partial'',
         [\<lparr>msg_id = 1000, msg_text = JStr ''latest AI news'', sender = User,
            sources = JUndefined, isStreaming = None\<rparr>,
          \<lparr>msg_id = 1001, msg_text = JStr ''partial'', sender = Bot,
            sources = JArr [], isStreaming = Some True\<rparr>])
       = (''partial'',
         [\<lparr>msg_id = 1000, msg_text = JStr ''latest AI news'', sender = User,
            sources = JUndefined, isStreaming = None\<rparr>,
          \<lparr>msg_id = 1001, msg_text = JStr ''Sorry, an error occurred.'', sender = Bot,
            sources = JArr [], isStreaming = Some False\<rparr>])"
proof -
  let ?prev = "[\<lparr>msg_id = 1000, msg_text = JStr ''latest AI news'', sender = User,
            sources = JUndefined, isStreaming = None\<rparr>,
          \<lparr>msg_id = 1001, msg_text = JStr ''partial'', sender = Bot,
            sources = JArr [], isStreaming = Some True\<rparr>]"
  have h1: "startsWith ''data: '' (''data: '' @ frame_error)"
    by (simp add: startsWith_def)
  have h2: "parse_sample (drop 6 (''data: '' @ frame_error))
        = Some (JObj [(''type'', JStr ''error''), (''error'', JStr ''boom'')])"
    by (simp add: parse_sample_def frame_done_def frame_token_def frame_error_def)
  have h3: "js_get (JObj [(''type'', JStr ''error''), (''error'', JStr ''boom'')]) ''type'' = JStr ''error''"
    by simp
  obtain t msgs where
    p: "process_line parse_sample (handlers 1001) (''data: '' @ frame_error) (''partial'', ?prev)
          = (t, msgs)"
    by (metis prod.exhaust)
  from error_event_closes_message
         [where line = "''data: '' @ frame_error" and parse = parse_sample
            and data = "JObj [(''type'', JStr ''error''), (''error'', JStr ''boom'')]"
            and botMessageId = 1001 and streamedText = "''partial''" and prev = ?prev,
          OF h1 h2 h3 p]
  have t: "t = ''partial''" and l: "length msgs = length ?prev"
    and k: "\<forall>k < length ?prev.
          if msg_id (?prev ! k) = 1001
          then msgs ! k = (?prev ! k)\<lparr>msg_text := JStr ''Sorry, an error occurred.'',
                                      isStreaming := Some False\<rparr>
          else msgs ! k = ?prev ! k"
    by blast+
  from k have "msgs ! 0 = ?prev ! 0" and "msgs ! 1 = (?prev ! 1)\<lparr>msg_text := JStr ''Sorry, an error occurred.'',
                                      isStreaming := Some False\<rparr>"
    by simp_all
  with l have "msgs = [?prev ! 0, (?prev ! 1)\<lparr>msg_text := JStr ''Sorry, an error occurred.'',
                                      isStreaming := Some False\<rparr>]"
    by (intro nth_equalityI) (auto simp add: less_Suc_eq)
  with p t h1 h2 h3 show ?thesis by simp
qed

text \<open>An accepted submission on the streaming path, in terms of the recorded calls.\<close>

lemma handleSubmit_streaming:
  assumes "trim (message st) \<noteq> []" and "\<not> isLoading st" and "useStreaming st"
  shows "handleSubmit parse env st =
     (st\<lparr>message := [],
         messages := snd (foldl (\<lambda>s e. deliver (handlers (now_bot env + 1)) e s)
           ([], messages st @
              [\<lparr>msg_id = now_user env, msg_text = JStr (message st), sender = User,
                sources = JUndefined, isStreaming = None\<rparr>,
               \<lparr>msg_id = now_bot env + 1, msg_text = JStr [], sender = Bot,
                sources = JArr [], isStreaming = Some True\<rparr>])
           (events parse (fetched_stream env))),
         isLoading := False\<rparr>,
      [Request (API_BASE_URL @ ''/api/stream'') (message st) 3 True])"
  using assms by (simp add: handleSubmit_def handleStreamingResponse_run Let_def)

lemma events_fetch_failed: "events parse (Inl e) = [Error (JStr (exn.message e))]"
  by (simp add: events_def streamMessage_def stream_try_def recorder_def call_def)

lemma events_not_ok:
  "\<not> ok r \<Longrightarrow> events parse (Inr r) = [Error (JStr (exn.message (http_error (status r))))]"
  by (simp add: events_def streamMessage_def stream_try_def recorder_def call_def)

text \<open>A failure of the transport is written into the bot message that is there.\<close>

lemma transport_failure_in_place:
  assumes "trim (message st) \<noteq> []" and "\<not> isLoading st" and "useStreaming st"
    and "fetched_stream env = Inl e \<or> (fetched_stream env = Inr r \<and> \<not> ok r)"
  shows "messages (fst (handleSubmit parse env st))
      = patch (now_bot env + 1)
          (\<lambda>msg. msg\<lparr>msg_text := JStr ''Sorry, an error occurred.'', isStreaming := Some False\<rparr>)
          (messages st @
             [\<lparr>msg_id = now_user env, msg_text = JStr (message st), sender = User,
               sources = JUndefined, isStreaming = None\<rparr>,
              \<lparr>msg_id = now_bot env + 1, msg_text = JStr [], sender = Bot,
               sources = JArr [], isStreaming = Some True\<rparr>])"
proof -
  from assms(4) obtain v where "events parse (fetched_stream env) = [Error v]"
    using events_fetch_failed [of parse e] events_not_ok [of r parse] by auto
  then show ?thesis
    by (simp add: handleSubmit_streaming [OF assms(1-3)] deliver_def handlers_def call_def
        error_handler_def)
qed

text \<open>
  C10. With the callbacks of \<open>handleStreamingResponse\<close>, \<open>streamMessage\<close> never rejects. A
  \<open>fetch\<close> that fails and a response whose status is not a success each show as exactly one
  call, \<open>onError\<close> with the message of what was thrown. An accepted submission on the
  streaming path appends two messages, the user message and the bot message, in this order,
  and no other: every later change is made in place, and a failure of the transport puts the
  error text into the bot message.
\<close>

theorem streaming_never_throws_and_appends_two:
  assumes "trim (message st) \<noteq> []" and "\<not> isLoading st" and "useStreaming st"
  shows "snd (fst (streamMessage parse fetched q n (handlers botMessageId) s)) = None
    \<and> events parse (Inl e) = [Error (JStr (exn.message e))]
    \<and> (\<not> ok r \<longrightarrow> events parse (Inr r) = [Error (JStr (''HTTP error! status: '' @ show_nat (status r)))])
    \<and> map msg_id (messages (fst (handleSubmit parse env st)))
         = map msg_id (messages st) @ [now_user env, now_bot env + 1]
    \<and> map sender (messages (fst (handleSubmit parse env st)))
         = map sender (messages st) @ [User, Bot]
    \<and> (fetched_stream env = Inl e \<or> (fetched_stream env = Inr r \<and> \<not> ok r) \<longrightarrow>
          messages (fst (handleSubmit parse env st))
            = patch (now_bot env + 1)
                (\<lambda>msg. msg\<lparr>msg_text := JStr ''Sorry, an error occurred.'', isStreaming := Some False\<rparr>)
                (messages st @
                   [\<lparr>msg_id = now_user env, msg_text = JStr (message st), sender = User,
                     sources = JUndefined, isStreaming = None\<rparr>,
                    \<lparr>msg_id = now_bot env + 1, msg_text = JStr [], sender = Bot,
                     sources = JArr [], isStreaming = Some True\<rparr>]))"
proof -
  let ?init = "messages st @
              [\<lparr>msg_id = now_user env, msg_text = JStr (message st), sender = User,
                sources = JUndefined, isStreaming = None\<rparr>,
               \<lparr>msg_id = now_bot env + 1, msg_text = JStr [], sender = Bot,
                sources = JArr [], isStreaming = Some True\<rparr>]"
  from run_handlers [of "now_bot env + 1" "[]" ?init "events parse (fetched_stream env)"]
  obtain t' g where
    r: "foldl (\<lambda>s e. deliver (handlers (now_bot env + 1)) e s) ([], ?init)
          (events parse (fetched_stream env)) = (t', map g ?init)"
    and g: "\<forall>m. msg_id (g m) = msg_id m \<and> sender (g m) = sender m \<and> (streaming (g m) \<longrightarrow> streaming m)"
    by (elim exE conjE)
  from g have g_id: "msg_id \<circ> g = msg_id" and g_sender: "sender \<circ> g = sender"
    by auto
  have m: "messages (fst (handleSubmit parse env st)) = map g ?init"
    using r by (simp add: handleSubmit_streaming [OF assms])
  have ids: "map msg_id (messages (fst (handleSubmit parse env st)))
         = map msg_id (messages st) @ [now_user env, now_bot env + 1]"
    unfolding m map_map g_id by simp
  have senders: "map sender (messages (fst (handleSubmit parse env st)))
         = map sender (messages st) @ [User, Bot]"
    unfolding m map_map g_sender by simp
  have inplace: "fetched_stream env = Inl e \<or> (fetched_stream env = Inr r \<and> \<not> ok r) \<longrightarrow>
          messages (fst (handleSubmit parse env st))
            = patch (now_bot env + 1)
                (\<lambda>msg. msg\<lparr>msg_text := JStr ''Sorry, an error occurred.'', isStreaming := Some False\<rparr>)
                ?init"
    using transport_failure_in_place [OF assms] by blast
  have calls: "snd (fst (streamMessage parse fetched q n (handlers botMessageId) s)) = None
    \<and> events parse (Inl e) = [Error (JStr (exn.message e))]
    \<and> (\<not> ok r \<longrightarrow> events parse (Inr r) = [Error (JStr (''HTTP error! status: '' @ show_nat (status r)))])"
    by (simp add: streamMessage_handlers_never_throws events_fetch_failed events_not_ok
        http_error_def)
  from calls ids senders inplace show ?thesis by blast
qed

text \<open>
  C10 on a submission whose \<open>fetch\<close> fails: the ledger holds the user message and the bot
  message, the latter with the error text; and a response with status 503 shows as one
  \<open>onError\<close> call.
\<close>

theorem streaming_never_throws_and_appends_two_witness:
  "trim ''latest AI news'' \<noteq> []
   \<and> map msg_id (messages (fst (handleSubmit parse_sample
         ((streaming_env 1000 [])\<lparr>fetched_stream := Inl (Exn ''Failed to fetch'')\<rparr>)
         (initial_state\<lparr>message := ''latest AI news''\<rparr>)))) = [1000, 1001]
   \<and> map sender (messages (fst (handleSubmit parse_sample
         ((streaming_env 1000 [])\<lparr>fetched_stream := Inl (Exn ''Failed to fetch'')\<rparr>)
         (initial_state\<lparr>message := ''latest AI news''\<rparr>)))) = [User, Bot]
   \<and> map msg_text (messages (fst (handleSubmit parse_sample
         ((streaming_env 1000 [])\<lparr>fetched_stream := Inl (Exn ''Failed to fetch'')\<rparr>)
         (initial_state\<lparr>message := ''latest AI news''\<rparr>))))
       = [JStr ''latest AI news'', JStr ''Sorry, an error occurred.'']
   \<and> events parse_sample (Inr \<lparr>ok = False, status = 503, body = Inr []\<rparr>)
       = [Error (JStr ''HTTP error! status: 503'')]"
proof -
  let ?env = "(streaming_env 1000 [])\<lparr>fetched_stream := Inl (Exn ''Failed to fetch'')\<rparr>"
  let ?st = "initial_state\<lparr>message := ''latest AI news''\<rparr>"
  have h1: "trim (message ?st) \<noteq> []"
    by (simp add: trim_def is_space_def)
  have h2: "\<not> isLoading ?st" and h3: "useStreaming ?st"
    by (simp_all add: initial_state_def)
  have n: "show_nat 503 = ''503''"
    by code_simp
  have t: "map msg_text (messages (fst (handleSubmit parse_sample ?env ?st)))
       = [JStr ''latest AI news'', JStr ''Sorry, an error occurred.'']"
    by (simp add: submit_defs run_defs trim_def is_space_def Let_def)
  note T = streaming_never_throws_and_appends_two
         [where st = ?st and env = ?env and parse = parse_sample
            and r = "\<lparr>ok = False, status = 503, body = Inr []\<rparr>", OF h1 h2 h3]
  note ev = T [THEN conjunct2, THEN conjunct2, THEN conjunct1]
  note ids = T [THEN conjunct2, THEN conjunct2, THEN conjunct2, THEN conjunct1]
  note senders = T [THEN conjunct2, THEN conjunct2, THEN conjunct2, THEN conjunct2, THEN conjunct1]
  from ev ids senders n t h1 show ?thesis
    by (simp add: initial_state_def streaming_env_def)
qed

text \<open>An accepted submission on the plain path.\<close>

lemma handleSubmit_regular:
  assumes "trim (message st) \<noteq> []" and "\<not> isLoading st" and "\<not> useStreaming st"
  shows "handleSubmit parse env st =
     (st\<lparr>message := [],
         messages := messages st @
           [\<lparr>msg_id = now_user env, msg_text = JStr (message st), sender = User,
             sources = JUndefined, isStreaming = None\<rparr>,
            (case fst (sendMessage (fetched_query env) (message st) 3) of
               Inl e \<Rightarrow> \<lparr>msg_id = now_error env + 1, msg_text = JStr failure_text, sender = Bot,
                          sources = JUndefined, isStreaming = None\<rparr>
             | Inr data \<Rightarrow>
                 if nullish data
                 then \<lparr>msg_id = now_error env + 1, msg_text = JStr failure_text, sender = Bot,
                        sources = JUndefined, isStreaming = None\<rparr>
                 else \<lparr>msg_id = now_bot env + 1, msg_text = js_get data ''answer'', sender = Bot,
                        sources = js_get data ''sources'', isStreaming = None\<rparr>)],
         isLoading := False\<rparr>,
      [Request (API_BASE_URL @ ''/api/query'') (message st) 3 False])"
  using assms
  by (simp add: handleSubmit_def handleRegularResponse_def sendMessage_def addErrorMessage_def
      Let_def split: sum.splits)




lemma filter_map_le:
  assumes "\<And>x. P (g x) \<Longrightarrow> P x"
  shows "length (filter P (map g xs)) \<le> length (filter P xs)"
  by (induction xs) (auto dest: assms)

lemma handleSubmit_useStreaming:
  "useStreaming (fst (handleSubmit parse env st)) = useStreaming st"
  by (simp add: handleSubmit_def Let_def split: prod.splits)

text \<open>The ledger after an accepted submission on the streaming path.\<close>

lemma streaming_ledger:
  assumes "trim (message st) \<noteq> []" and "\<not> isLoading st" and "useStreaming st"
  shows "\<exists>g. messages (fst (handleSubmit parse env st))
          = map g (messages st @
              [\<lparr>msg_id = now_user env, msg_text = JStr (message st), sender = User,
                sources = JUndefined, isStreaming = None\<rparr>,
               \<lparr>msg_id = now_bot env + 1, msg_text = JStr [], sender = Bot,
                sources = JArr [], isStreaming = Some True\<rparr>])
      \<and> (\<forall>m. msg_id m \<noteq> now_bot env + 1 \<longrightarrow> g m = m)
      \<and> (\<forall>m. streaming (g m) \<longrightarrow> streaming m)
      \<and> (closes parse (fetched_stream env) \<longrightarrow> (\<forall>m. msg_id m = now_bot env + 1 \<longrightarrow> \<not> streaming (g m)))"
proof -
  let ?init = "messages st @
              [\<lparr>msg_id = now_user env, msg_text = JStr (message st), sender = User,
                sources = JUndefined, isStreaming = None\<rparr>,
               \<lparr>msg_id = now_bot env + 1, msg_text = JStr [], sender = Bot,
                sources = JArr [], isStreaming = Some True\<rparr>]"
  from run_handlers [of "now_bot env + 1" "[]" ?init "events parse (fetched_stream env)"]
  obtain t' g where
    r: "foldl (\<lambda>s e. deliver (handlers (now_bot env + 1)) e s) ([], ?init)
          (events parse (fetched_stream env)) = (t', map g ?init)"
    and g1: "\<forall>m. msg_id m \<noteq> now_bot env + 1 \<longrightarrow> g m = m"
    and g2: "\<forall>m. msg_id (g m) = msg_id m \<and> sender (g m) = sender m \<and> (streaming (g m) \<longrightarrow> streaming m)"
    and gc: "list_ex closing (events parse (fetched_stream env))
               \<longrightarrow> (\<forall>m. msg_id m = now_bot env + 1 \<longrightarrow> \<not> streaming (g m))"
    by (elim exE conjE)
  have m: "messages (fst (handleSubmit parse env st)) = map g ?init"
    using r by (simp add: handleSubmit_streaming [OF assms])
  from g2 have g3: "\<forall>m. streaming (g m) \<longrightarrow> streaming m" by blast
  from gc have g4: "closes parse (fetched_stream env)
               \<longrightarrow> (\<forall>m. msg_id m = now_bot env + 1 \<longrightarrow> \<not> streaming (g m))"
    by (simp add: closes_def)
  show ?thesis
  proof (intro exI conjI)
    show "messages (fst (handleSubmit parse env st)) = map g ?init" by (rule m)
    show "\<forall>m. msg_id m \<noteq> now_bot env + 1 \<longrightarrow> g m = m" by (rule g1)
    show "\<forall>m. streaming (g m) \<longrightarrow> streaming m" by (rule g3)
    show "closes parse (fetched_stream env)
               \<longrightarrow> (\<forall>m. msg_id m = now_bot env + 1 \<longrightarrow> \<not> streaming (g m))" by (rule g4)
  qed
qed

lemma regular_ledger:
  assumes "trim (message st) \<noteq> []" and "\<not> isLoading st" and "\<not> useStreaming st"
  shows "\<exists>m. messages (fst (handleSubmit parse env st))
          = messages st @
              [\<lparr>msg_id = now_user env, msg_text = JStr (message st), sender = User,
                sources = JUndefined, isStreaming = None\<rparr>, m]
      \<and> isStreaming m = None"
  by (simp add: handleSubmit_regular [OF assms] split: sum.splits)

lemma submit_at_most_one:
  assumes "\<forall>m \<in> set (messages st). \<not> streaming m"
  shows "length (filter streaming (messages (fst (handleSubmit parse env st)))) \<le> 1"
proof (cases "trim (message st) \<noteq> [] \<and> \<not> isLoading st")
  case False
  then have "handleSubmit parse env st = (st, [])"
    by (auto simp add: handleSubmit_def)
  with assms show ?thesis by simp
next
  case True
  then have guard: "trim (message st) \<noteq> []" "\<not> isLoading st" by simp_all
  from assms have none: "filter streaming (messages st) = []"
    by simp
  show ?thesis
  proof (cases "useStreaming st")
    case True
    from streaming_ledger [OF guard True, of parse env] obtain g where
      m: "messages (fst (handleSubmit parse env st))
          = map g (messages st @
              [\<lparr>msg_id = now_user env, msg_text = JStr (message st), sender = User,
                sources = JUndefined, isStreaming = None\<rparr>,
               \<lparr>msg_id = now_bot env + 1, msg_text = JStr [], sender = Bot,
                sources = JArr [], isStreaming = Some True\<rparr>])"
      and g: "\<forall>m. streaming (g m) \<longrightarrow> streaming m"
      by (elim exE conjE)
    from g have "\<And>x. streaming (g x) \<Longrightarrow> streaming x" by blast
    from filter_map_le [of streaming g, OF this]
    have "length (filter streaming (messages (fst (handleSubmit parse env st))))
        \<le> length (filter streaming (messages st @
              [\<lparr>msg_id = now_user env, msg_text = JStr (message st), sender = User,
                sources = JUndefined, isStreaming = None\<rparr>,
               \<lparr>msg_id = now_bot env + 1, msg_text = JStr [], sender = Bot,
                sources = JArr [], isStreaming = Some True\<rparr>]))"
      unfolding m .
    also have "\<dots> = 1"
      using none by (simp add: streaming_def)
    finally show ?thesis .
  next
    case False
    from regular_ledger [OF guard False, of parse env] obtain m where
      "messages (fst (handleSubmit parse env st))
          = messages st @
              [\<lparr>msg_id = now_user env, msg_text = JStr (message st), sender = User,
                sources = JUndefined, isStreaming = None\<rparr>, m]"
      and "isStreaming m = None"
      by (elim exE conjE)
    with none show ?thesis by (simp add: streaming_def)
  qed
qed

lemma submit_closed:
  assumes "\<forall>m \<in> set (messages st). \<not> streaming m"
    and "useStreaming st \<longrightarrow> closes parse (fetched_stream env)"
  shows "\<forall>m \<in> set (messages (fst (handleSubmit parse env st))). \<not> streaming m"
proof (cases "trim (message st) \<noteq> [] \<and> \<not> isLoading st")
  case False
  then have "handleSubmit parse env st = (st, [])"
    by (auto simp add: handleSubmit_def)
  with assms(1) show ?thesis by simp
next
  case True
  then have guard: "trim (message st) \<noteq> []" "\<not> isLoading st" by simp_all
  show ?thesis
  proof (cases "useStreaming st")
    case True
    with assms(2) have c: "closes parse (fetched_stream env)" by simp
    from streaming_ledger [OF guard True, of parse env] c obtain g where
      m: "messages (fst (handleSubmit parse env st))
          = map g (messages st @
              [\<lparr>msg_id = now_user env, msg_text = JStr (message st), sender = User,
                sources = JUndefined, isStreaming = None\<rparr>,
               \<lparr>msg_id = now_bot env + 1, msg_text = JStr [], sender = Bot,
                sources = JArr [], isStreaming = Some True\<rparr>])"
      and g: "\<forall>m. streaming (g m) \<longrightarrow> streaming m"
      and gc: "\<forall>m. msg_id m = now_bot env + 1 \<longrightarrow> \<not> streaming (g m)"
      by blast
    from g assms(1) have old: "\<forall>x \<in> set (messages st). \<not> streaming (g x)" by blast
    from g have user: "\<not> streaming (g \<lparr>msg_id = now_user env, msg_text = JStr (message st), sender = User,
                sources = JUndefined, isStreaming = None\<rparr>)"
      by (auto simp add: streaming_def)
    from gc have bot: "\<not> streaming (g \<lparr>msg_id = now_bot env + 1, msg_text = JStr [], sender = Bot,
                sources = JArr [], isStreaming = Some True\<rparr>)"
      by simp
    from old user bot show ?thesis
      unfolding m by simp
  next
    case False
    from regular_ledger [OF guard False, of parse env] obtain m where
      "messages (fst (handleSubmit parse env st))
          = messages st @
              [\<lparr>msg_id = now_user env, msg_text = JStr (message st), sender = User,
                sources = JUndefined, isStreaming = None\<rparr>, m]"
      and "isStreaming m = None"
      by (elim exE conjE)
    with assms(1) show ?thesis by (simp add: streaming_def)
  qed
qed

lemma submits_at_most_one:
  assumes "\<forall>m \<in> set (messages st). \<not> streaming m"
    and "\<forall>(typed, env) \<in> set (butlast runs). useStreaming st \<longrightarrow> closes parse (fetched_stream env)"
  shows "length (filter streaming (messages (submits parse runs st))) \<le> 1"
  using assms
proof (induction runs arbitrary: st)
  case Nil
  then show ?case by simp
next
  case (Cons run runs)
  obtain typed env where run: "run = (typed, env)" by (cases run)
  let ?st0 = "st\<lparr>message := typed\<rparr>"
  let ?st1 = "fst (handleSubmit parse env ?st0)"
  from Cons.prems(1) have none: "\<forall>m \<in> set (messages ?st0). \<not> streaming m" by simp
  show ?case
  proof (cases "runs = []")
    case True
    with run submit_at_most_one [OF none, of parse env] show ?thesis by simp
  next
    case False
    with Cons.prems(2) run
    have c: "useStreaming ?st0 \<longrightarrow> closes parse (fetched_stream env)"
      and rest: "\<forall>(typed, env) \<in> set (butlast runs). useStreaming st \<longrightarrow> closes parse (fetched_stream env)"
      by auto
    from submit_closed [OF none c] have none1: "\<forall>m \<in> set (messages ?st1). \<not> streaming m" .
    have u: "useStreaming ?st1 = useStreaming st"
      by (simp add: handleSubmit_useStreaming)
    from rest u have rest1:
      "\<forall>(typed, env) \<in> set (butlast runs). useStreaming ?st1 \<longrightarrow> closes parse (fetched_stream env)"
      by simp
    from Cons.IH [OF none1 rest1] run show ?thesis by simp
  qed
qed

lemma submits_closed:
  assumes "\<forall>m \<in> set (messages st). \<not> streaming m"
    and "\<forall>(typed, env) \<in> set runs. useStreaming st \<longrightarrow> closes parse (fetched_stream env)"
  shows "\<forall>m \<in> set (messages (submits parse runs st)). \<not> streaming m"
  using assms
proof (induction runs arbitrary: st)
  case Nil
  then show ?case by simp
next
  case (Cons run runs)
  obtain typed env where run: "run = (typed, env)" by (cases run)
  let ?st0 = "st\<lparr>message := typed\<rparr>"
  let ?st1 = "fst (handleSubmit parse env ?st0)"
  from Cons.prems(1) have none: "\<forall>m \<in> set (messages ?st0). \<not> streaming m" by simp
  from Cons.prems(2) run
  have c: "useStreaming ?st0 \<longrightarrow> closes parse (fetched_stream env)"
    and rest: "\<forall>(typed, env) \<in> set runs. useStreaming st \<longrightarrow> closes parse (fetched_stream env)"
    by auto
  from submit_closed [OF none c] have none1: "\<forall>m \<in> set (messages ?st1). \<not> streaming m" .
  have u: "useStreaming ?st1 = useStreaming st"
    by (simp add: handleSubmit_useStreaming)
  from rest u have rest1:
    "\<forall>(typed, env) \<in> set runs. useStreaming ?st1 \<longrightarrow> closes parse (fetched_stream env)"
    by simp
  from Cons.IH [OF none1 rest1] run show ?case by simp
qed

text \<open>
  C2, amended. In a session that starts with no message streaming, at most one message is
  streaming after any number of submissions, provided every stream but that of the last
  submission has closed its message: by a frame of type \<open>done\<close> or \<open>error\<close>, or by a failure
  of the transport. The last stream is arbitrary, so the bound holds at every point of it.
  When the last stream has closed its message too, no message is streaming.
\<close>

theorem at_most_one_streaming:
  assumes "\<forall>m \<in> set (messages st). \<not> streaming m"
    and "\<forall>(typed, env) \<in> set (butlast runs). useStreaming st \<longrightarrow> closes parse (fetched_stream env)"
  shows "length (filter streaming (messages (submits parse runs st))) \<le> 1
    \<and> ((\<forall>(typed, env) \<in> set runs. useStreaming st \<longrightarrow> closes parse (fetched_stream env))
          \<longrightarrow> (\<forall>m \<in> set (messages (submits parse runs st)). \<not> streaming m))"
  using submits_at_most_one [OF assms] submits_closed [OF assms(1)] by blast

text \<open>
  C2, as stated, fails: a stream that delivers a token and ends without a terminal frame
  leaves its message streaming, the busy flag is cleared, and the next submission adds a
  second streaming message.
\<close>

theorem two_messages_streaming:
  "map isStreaming (messages (submits parse_sample
       [(''latest AI news'', streaming_env 1000 [''data: '' @ frame_token @ [nl]]),
        (''again'', streaming_env 5000 [''data: '' @ frame_token @ [nl]])]
       initial_state))
     = [None, Some True, None, Some True]
   \<and> length (filter streaming (messages (submits parse_sample
       [(''latest AI news'', streaming_env 1000 [''data: '' @ frame_token @ [nl]]),
        (''again'', streaming_env 5000 [''data: '' @ frame_token @ [nl]])]
       initial_state))) = 2"
  by (simp add: submit_defs run_defs streaming_def trim_def is_space_def char_defs Let_def)

text \<open>
  The amended C2 on two submissions, the first stream ending with a done frame, the second
  one still open.
\<close>

theorem at_most_one_streaming_witness:
  "closes parse_sample (fetched_stream (streaming_env 1000 [''data: '' @ frame_token @ [nl] @ ''data: '' @ frame_done @ [nl]]))
   \<and> length (filter streaming (messages (submits parse_sample
       [(''latest AI news'', streaming_env 1000 [''data: '' @ frame_token @ [nl] @ ''data: '' @ frame_done @ [nl]]),
        (''again'', streaming_env 5000 [''data: '' @ frame_token @ [nl]])]
       initial_state))) \<le> 1
   \<and> map isStreaming (messages (submits parse_sample
       [(''latest AI news'', streaming_env 1000 [''data: '' @ frame_token @ [nl] @ ''data: '' @ frame_done @ [nl]]),
        (''again'', streaming_env 5000 [''data: '' @ frame_token @ [nl]])]
       initial_state))
     = [None, Some False, None, Some True]"
proof -
  let ?e1 = "streaming_env 1000 [''data: '' @ frame_token @ [nl] @ ''data: '' @ frame_done @ [nl]]"
  let ?e2 = "streaming_env 5000 [''data: '' @ frame_token @ [nl]]"
  have h1: "\<forall>m \<in> set (messages initial_state). \<not> streaming m"
    by (simp add: initial_state_def)
  have c: "closes parse_sample (fetched_stream ?e1)"
    by (simp add: closes_def streaming_env_def run_defs char_defs)
  then have h2: "\<forall>(typed, env) \<in> set (butlast [(''latest AI news'', ?e1), (''again'', ?e2)]).
           useStreaming initial_state \<longrightarrow> closes parse_sample (fetched_stream env)"
    by simp
  have v: "map isStreaming (messages (submits parse_sample
       [(''latest AI news'', ?e1), (''again'', ?e2)] initial_state))
     = [None, Some False, None, Some True]"
    by (simp add: submit_defs run_defs trim_def is_space_def char_defs Let_def)
  from at_most_one_streaming [OF h1 h2] c v show ?thesis by blast
qed

text \<open>
  C4, as stated, fails: the decoder goes on after a closing frame, and the callbacks look
  at the id of a message only. A stream that ends with its done frame leaves the bot message
  closed with an empty text; the same stream followed by a token frame leaves it closed with
  the text of the token.
\<close>

theorem closed_message_modified:
  "map isStreaming (messages (fst (handleSubmit parse_sample
       (streaming_env 1000 [''data: '' @ frame_done @ [nl]])
       (initial_state\<lparr>message := ''hello''\<rparr>)))) = [None, Some False]
   \<and> map msg_text (messages (fst (handleSubmit parse_sample
       (streaming_env 1000 [''data: '' @ frame_done @ [nl]])
       (initial_state\<lparr>message := ''hello''\<rparr>)))) = [JStr ''hello'', JStr []]
   \<and> map isStreaming (messages (fst (handleSubmit parse_sample
       (streaming_env 1000 [''data: '' @ frame_done @ [nl], ''data: '' @ frame_token @ [nl]])
       (initial_state\<lparr>message := ''hello''\<rparr>)))) = [None, Some False]
   \<and> map msg_text (messages (fst (handleSubmit parse_sample
       (streaming_env 1000 [''data: '' @ frame_done @ [nl], ''data: '' @ frame_token @ [nl]])
       (initial_state\<lparr>message := ''hello''\<rparr>)))) = [JStr ''hello'', JStr ''partial'']"
  by (simp add: submit_defs run_defs trim_def is_space_def char_defs Let_def)

lemma done_keeps_text_and_sources:
  "map msg_text (snd (deliver (handlers i) Done (t, msgs))) = map msg_text msgs
   \<and> map sources (snd (deliver (handlers i) Done (t, msgs))) = map sources msgs"
  by (simp add: deliver_def handlers_def call0_def done_handler_def patch_def o_def if_distrib)

text \<open>
  C4, amended. No submission changes a message whose id is not the id of its own bot
  message: the events of every later stream leave a closed message as it is, text and
  sources included. A done event changes neither the text nor the sources of any message.
  (A token, sources or error event that a stream delivers after its closing event is applied
  to the closed message of that stream.)
\<close>

theorem closed_message_kept:
  assumes "k < length (messages st)" and "msg_id (messages st ! k) \<noteq> now_bot env + 1"
  shows "messages (fst (handleSubmit parse env st)) ! k = messages st ! k
    \<and> map msg_text (snd (deliver (handlers i) Done (t, msgs))) = map msg_text msgs
    \<and> map sources (snd (deliver (handlers i) Done (t, msgs))) = map sources msgs"
proof -
  have "messages (fst (handleSubmit parse env st)) ! k = messages st ! k"
  proof (cases "trim (message st) \<noteq> [] \<and> \<not> isLoading st")
    case False
    then have "handleSubmit parse env st = (st, [])"
      by (auto simp add: handleSubmit_def)
    then show ?thesis by simp
  next
    case True
    then have guard: "trim (message st) \<noteq> []" "\<not> isLoading st" by simp_all
    show ?thesis
    proof (cases "useStreaming st")
      case True
      let ?init = "messages st @
              [\<lparr>msg_id = now_user env, msg_text = JStr (message st), sender = User,
                sources = JUndefined, isStreaming = None\<rparr>,
               \<lparr>msg_id = now_bot env + 1, msg_text = JStr [], sender = Bot,
                sources = JArr [], isStreaming = Some True\<rparr>]"
      from streaming_ledger [OF guard True, of parse env] obtain g where
        m: "messages (fst (handleSubmit parse env st)) = map g ?init"
        and g: "\<forall>m. msg_id m \<noteq> now_bot env + 1 \<longrightarrow> g m = m"
        by (elim exE conjE)
      from assms(1) have i: "?init ! k = messages st ! k" and l: "k < length ?init"
        by (simp_all add: nth_append)
      from l have "map g ?init ! k = g (?init ! k)"
        by (rule nth_map)
      then have "messages (fst (handleSubmit parse env st)) ! k = g (?init ! k)"
        by (simp only: m)
      with i g assms(2) show ?thesis by simp
    next
      case False
      from regular_ledger [OF guard False, of parse env] obtain m where
        "messages (fst (handleSubmit parse env st))
          = messages st @
              [\<lparr>msg_id = now_user env, msg_text = JStr (message st), sender = User,
                sources = JUndefined, isStreaming = None\<rparr>, m]"
        by (elim exE conjE)
      with assms(1) show ?thesis by (simp add: nth_append)
    qed
  qed
  with done_keeps_text_and_sources [of i t msgs] show ?thesis by simp
qed

text \<open>
  The amended C4 on a ledger with a closed bot message and a second submission whose
  stream delivers a token and an error.
\<close>

theorem closed_message_kept_witness:
  "messages (fst (handleSubmit parse_sample
       (streaming_env 5000 [''data: '' @ frame_token @ [nl] @ ''data: '' @ frame_error @ [nl]])
       \<lparr>message = ''again'',
         messages = [\<lparr>msg_id = 1000, msg_text = JStr ''hello'', sender = User,
                       sources = JUndefined, isStreaming = None\<rparr>,
                     \<lparr>msg_id = 1001, msg_text = JStr ''partial'', sender = Bot,
                       sources = JArr [], isStreaming = Some False\<rparr>],
         isLoading = False, useStreaming = True\<rparr>)) ! 1
     = \<lparr>msg_id = 1001, msg_text = JStr ''partial'', sender = Bot,
         sources = JArr [], isStreaming = Some False\<rparr>
   \<and> map msg_text (messages (fst (handleSubmit parse_sample
       (streaming_env 5000 [''data: '' @ frame_token @ [nl] @ ''data: '' @ frame_error @ [nl]])
       \<lparr>message = ''again'',
         messages = [\<lparr>msg_id = 1000, msg_text = JStr ''hello'', sender = User,
                       sources = JUndefined, isStreaming = None\<rparr>,
                     \<lparr>msg_id = 1001, msg_text = JStr ''partial'', sender = Bot,
                       sources = JArr [], isStreaming = Some False\<rparr>],
         isLoading = False, useStreaming = True\<rparr>)))
     = [JStr ''hello'', JStr ''partial'', JStr ''again'', JStr ''Sorry, an error occurred.'']"
proof -
  let ?env = "streaming_env 5000 [''data: '' @ frame_token @ [nl] @ ''data: '' @ frame_error @ [nl]]"
  let ?st = "\<lparr>message = ''again'',
         messages = [\<lparr>msg_id = 1000, msg_text = JStr ''hello'', sender = User,
                       sources = JUndefined, isStreaming = None\<rparr>,
                     \<lparr>msg_id = 1001, msg_text = JStr ''partial'', sender = Bot,
                       sources = JArr [], isStreaming = Some False\<rparr>],
         isLoading = False, useStreaming = True\<rparr>"
  have h1: "1 < length (messages ?st)" by simp
  have h2: "msg_id (messages ?st ! 1) \<noteq> now_bot ?env + 1"
    by (simp add: streaming_env_def)
  have v: "map msg_text (messages (fst (handleSubmit parse_sample ?env ?st)))
     = [JStr ''hello'', JStr ''partial'', JStr ''again'', JStr ''Sorry, an error occurred.'']"
    by (simp add: submit_defs run_defs trim_def is_space_def char_defs Let_def)
  from closed_message_kept [where parse = parse_sample and env = ?env and st = ?st and k = 1,
      OF h1 h2] v
  show ?thesis by simp
qed

end
